theory Spec2Isabelle
  imports Main "HOL-Library.AList" "HOL-Library.Multiset" "HOL-Library.Char_ord"
    "HOL-Library.List_Lexorder" "HOL-Library.Product_Lexorder"
begin

section \<open>Data model of \<open>graphBuilder.py\<close>\<close>

text \<open>
  The classes \<open>DatasetType\<close>, \<open>DatasetRef\<close>, \<open>Quantum\<close>, \<open>TaskDef\<close>,
  \<open>QuantumGraph\<close> and \<open>QuantumGraphTaskNodes\<close> are imported by \<open>graphBuilder.py\<close>
  from other packages; only the attributes that the module reads or writes are kept.

  \<^item> A \<open>DatasetType\<close> is compared by value (name and dimensions), so two declarations
    with one name may still differ.
  \<^item> A data id is a Python \<open>dict\<close> from dimension name to value: an association list
    with distinct keys, in insertion order. Values are only ever compared for
    equality; integers stand for them.
  \<^item> \<open>DatasetRef.id\<close> is \<open>None\<close> for a dataset that does not exist yet.
\<close>

record datasetType =
  name :: string
  dsDimensions :: "string list"

type_synonym dataId = "(string \<times> int) list"

record datasetRef =
  datasetType :: datasetType
  dataId :: dataId
  ref_id :: "nat option"

text \<open>A row of \<open>registry.selectDimensions\<close>: \<open>row.dataId\<close> and \<open>row.datasetRefs\<close>.\<close>

record dimensionRow =
  rowDataId :: dataId
  datasetRefs :: "datasetType \<rightharpoonup> datasetRef"

text \<open>
  A task configuration: \<open>config.quantum.dimensions\<close> is read by the builder; the rest
  of the configuration is opaque and only handed to the task class.
\<close>

record config =
  quantum_dimensions :: "string list"
  settings :: string

text \<open>
  A task class offers the four static getters \<open>getInputDatasetTypes\<close>,
  \<open>getOutputDatasetTypes\<close>, \<open>getInitInputDatasetTypes\<close>, \<open>getInitOutputDatasetTypes\<close>.
  Each returns a dict from a field name to a descriptor holding a \<open>datasetType\<close>, or
  \<open>None\<close>.
\<close>

record taskClass =
  getInputDatasetTypes :: "config \<Rightarrow> (string \<times> datasetType) list option"
  getOutputDatasetTypes :: "config \<Rightarrow> (string \<times> datasetType) list option"
  getInitInputDatasetTypes :: "config \<Rightarrow> (string \<times> datasetType) list option"
  getInitOutputDatasetTypes :: "config \<Rightarrow> (string \<times> datasetType) list option"

record taskDef =
  label :: string
  taskName :: string
  taskClass :: "taskClass option"
  config :: config

text \<open>The named tuple \<open>_TaskDatasetTypes\<close>.\<close>

record taskDatasetTypes =
  taskDef :: taskDef
  inputs :: "datasetType list"
  outputs :: "datasetType list"
  initInputs :: "datasetType list"
  initOutputs :: "datasetType list"

text \<open>
  \<open>Quantum\<close>: the references added by \<open>addPredictedInput\<close> and \<open>addOutput\<close>, in the
  order of the calls.
\<close>

record quantum =
  predictedInputs :: "datasetRef list"
  quantumOutputs :: "datasetRef list"

record quantumGraphTaskNodes =
  nodeTaskDef :: taskDef
  quanta :: "quantum list"

record quantumGraph =
  nodes :: "quantumGraphTaskNodes list"
  inputDatasetTypes :: "datasetType list"
  outputDatasetTypes :: "datasetType list"
  graphInitInputs :: "datasetRef list"
  graphInitOutputs :: "datasetRef list"

text \<open>
  Exceptions. \<open>GraphBuilderError\<close> carries the name of the missing init-input,
  \<open>UserExpressionError\<close> the expression and the parser's diagnostic,
  \<open>OutputExistsError\<close> the task name and the output references. A failed subscript
  raises \<open>KeyError\<close> with the key. \<open>CollaboratorError\<close> is an exception raised inside
  the registry, the task factory or the parser that the builder does not catch and
  lets through.
\<close>

datatype key = NameKey string | TypeKey datasetType | TupleKey dataId

datatype error =
    GraphBuilderError string
  | UserExpressionError string string
  | OutputExistsError string "datasetRef list"
  | KeyError key
  | AttributeError string
  | CollaboratorError string

text \<open>
  The collaborators. \<open>originInfo.getInputCollections\<close> gives the input collections of
  a dataset type name in priority order. The registry answers \<open>selectDimensions\<close>
  (which may fail), \<open>find\<close> (\<open>None\<close> when the collection has no such dataset) and
  holds the dimension universe, \<open>registry.dimensions[name].links()\<close>. The task factory
  loads a task class by name and returns it with its fully-qualified name.
  \<open>ParserYacc().parse\<close> returns an expression tree, \<open>None\<close> for an expression with
  nothing in it, or fails: with a \<open>ParserYaccError\<close>, or with an exception of another
  class.
\<close>

datatype parserException = ParserYaccError string | OtherParserError string

record originInfo =
  getInputCollections :: "string \<Rightarrow> string list"
  getOutputCollection :: "string \<Rightarrow> string"

datatype exprTree = Node string

fun str_of_tree :: "exprTree \<Rightarrow> string" where
  "str_of_tree (Node s) = s"

record registry =
  selectDimensions ::
    "originInfo \<Rightarrow> string option \<Rightarrow> datasetType list \<Rightarrow> datasetType list
       \<Rightarrow> error + dimensionRow list"
  findDataset :: "string \<Rightarrow> datasetType \<Rightarrow> datasetRef option"
  dimensions :: "string \<rightharpoonup> string list"

record taskFactory =
  loadTaskClass :: "string \<Rightarrow> error + (taskClass \<times> string)"

record graphBuilder =
  taskFactory :: taskFactory
  registry :: registry
  skipExisting :: bool
  parserYacc :: "string \<Rightarrow> parserException + exprTree option"

text \<open>
  The calls made to the parser and to the registry, in the order they are made.
\<close>

datatype event =
    Parse string
  | SelectDimensions "string option" "datasetType list" "datasetType list"
  | Find string datasetType

text \<open>
  \<open>TaskDef\<close> objects live in a store and are passed by reference: an address is an
  index into the store, and \<open>copy.copy\<close> allocates a new object at its end.
\<close>

type_synonym store = "taskDef list"

section \<open>Python sets and dicts\<close>

text \<open>
  A Python \<open>set\<close> is held as the duplicate-free list of its elements in order of
  first insertion; a \<open>dict\<close> is an association list, updated by \<open>AList.update\<close>
  (an existing key keeps its place, a new key goes to the end) and read by \<open>map_of\<close>.
\<close>

definition set_add :: "'a \<Rightarrow> 'a list \<Rightarrow> 'a list" where
  "set_add x xs = (if x \<in> set xs then xs else xs @ [x])"

text \<open>
  A \<open>for\<close> loop over a \<open>set\<close> does not visit the elements in the order of their
  insertion: it walks the hash table, so the order follows the hashes of the elements.
  The order is a parameter \<open>h\<close> of the model, the rank of every element in the
  table: the loop visits the elements by increasing rank, and elements of one rank in
  the order of insertion. Every order of the elements is the order of some \<open>h\<close>
  (\<open>set_iter_any_order\<close>), so nothing is assumed about the hashes.
\<close>

definition set_iter :: "('a \<Rightarrow> nat) \<Rightarrow> 'a list \<Rightarrow> 'a list" where
  "set_iter h xs = sort_key h xs"

text \<open>The rank that makes a set iterate as the list \<open>ys\<close>: the position in \<open>ys\<close>.\<close>

definition rank_in :: "'a list \<Rightarrow> 'a \<Rightarrow> nat" where
  "rank_in ys x = length (takeWhile (\<lambda>y. y \<noteq> x) ys)"

section \<open>\<open>_makeFullIODatasetTypes\<close>\<close>

text \<open>
  The innermost loop, lines 232-234: every dataset type of one category adds its name
  to the category's name set and is stored in \<open>allDatasetTypes\<close> under its name.
\<close>

fun addTypes ::
  "datasetType list \<Rightarrow> string list \<times> (string \<times> datasetType) list
     \<Rightarrow> string list \<times> (string \<times> datasetType) list" where
  "addTypes [] (ioSet, allDatasetTypes) = (ioSet, allDatasetTypes)"
| "addTypes (dsType # rest) (ioSet, allDatasetTypes) =
     addTypes rest (set_add (name dsType) ioSet, AList.update (name dsType) dsType allDatasetTypes)"

record ioState =
  allDatasetTypes :: "(string \<times> datasetType) list"
  inputNames :: "string list"
  outputNames :: "string list"
  initInputNames :: "string list"
  initOutputNames :: "string list"

text \<open>One task, lines 230-234: the four categories in the order of the \<open>zip\<close>.\<close>

definition addTask :: "taskDatasetTypes \<Rightarrow> ioState \<Rightarrow> ioState" where
  "addTask taskDs st =
     (let (i, a1) = addTypes (inputs taskDs) (inputNames st, allDatasetTypes st);
          (out, a2) = addTypes (outputs taskDs) (outputNames st, a1);
          (ii, a3) = addTypes (initInputs taskDs) (initInputNames st, a2);
          (io, a4) = addTypes (initOutputs taskDs) (initOutputNames st, a3)
      in \<lparr>allDatasetTypes = a4, inputNames = i, outputNames = out,
           initInputNames = ii, initOutputNames = io\<rparr>)"

fun addTasks :: "taskDatasetTypes list \<Rightarrow> ioState \<Rightarrow> ioState" where
  "addTasks [] st = st"
| "addTasks (taskDs # rest) st = addTasks rest (addTask taskDs st)"

text \<open>\<open>set(allDatasetTypes[name] for name in names)\<close>, lines 241-244.\<close>

fun lookupAll ::
  "(string \<times> datasetType) list \<Rightarrow> string list \<Rightarrow> datasetType list \<Rightarrow> error + datasetType list" where
  "lookupAll allT [] acc = Inr acc"
| "lookupAll allT (n # ns) acc =
     (case map_of allT n of
        None \<Rightarrow> Inl (KeyError (NameKey n))
      | Some dsType \<Rightarrow> lookupAll allT ns (set_add dsType acc))"

definition emptyIoState :: ioState where
  "emptyIoState = \<lparr>allDatasetTypes = [], inputNames = [], outputNames = [],
     initInputNames = [], initOutputNames = []\<rparr>"

definition makeFullIODatasetTypes ::
  "taskDatasetTypes list
     \<Rightarrow> error + (datasetType list \<times> datasetType list \<times> datasetType list \<times> datasetType list)" where
  "makeFullIODatasetTypes taskDatasets =
     (let st = addTasks taskDatasets emptyIoState;
          inputs1 = filter (\<lambda>n. n \<notin> set (outputNames st)) (inputNames st);
          initInputs1 = filter (\<lambda>n. n \<notin> set (initOutputNames st)) (initInputNames st)
      in case lookupAll (allDatasetTypes st) inputs1 [] of Inl e \<Rightarrow> Inl e | Inr gi \<Rightarrow>
         (case lookupAll (allDatasetTypes st) (outputNames st) [] of Inl e \<Rightarrow> Inl e | Inr go \<Rightarrow>
         (case lookupAll (allDatasetTypes st) initInputs1 [] of Inl e \<Rightarrow> Inl e | Inr gii \<Rightarrow>
         (case lookupAll (allDatasetTypes st) (initOutputNames st) [] of Inl e \<Rightarrow> Inl e | Inr gio \<Rightarrow>
            Inr (gi, go, gii, gio)))))"

section \<open>\<open>_parseUserQuery\<close> and \<open>_loadTaskClass\<close>\<close>

text \<open>
  Lines 125-129: of the parser's exceptions only a \<open>ParserYaccError\<close> is caught and
  raised again as a \<open>UserExpressionError\<close>; any other goes through.
\<close>

definition private_parseUserQuery ::
  "(string \<Rightarrow> parserException + exprTree option) \<Rightarrow> string \<Rightarrow> error + exprTree option" where
  "private_parseUserQuery parse userQuery =
     (case parse userQuery of
        Inl (ParserYaccError exc) \<Rightarrow> Inl (UserExpressionError userQuery exc)
      | Inl (OtherParserError exc) \<Rightarrow> Inl (CollaboratorError exc)
      | Inr tree \<Rightarrow> Inr tree)"

text \<open>
  \<open>_loadTaskClass\<close> takes the reference \<open>a\<close> of a \<open>TaskDef\<close> and returns a
  reference: \<open>a\<close> itself when the class is loaded, the address of an updated shallow
  copy otherwise.
\<close>

definition private_loadTaskClass :: "taskFactory \<Rightarrow> store \<Rightarrow> nat \<Rightarrow> error + (store \<times> nat)" where
  "private_loadTaskClass factory s a =
     (case taskClass (s ! a) of
        Some c \<Rightarrow> Inr (s, a)
      | None \<Rightarrow>
          (case loadTaskClass factory (taskName (s ! a)) of
             Inl e \<Rightarrow> Inl e
           | Inr (tClass, tName) \<Rightarrow>
               Inr (s @ [(s ! a)\<lparr>taskClass := Some tClass, taskName := tName\<rparr>], length s)))"

section \<open>\<open>_makeGraph\<close>\<close>

subsection \<open>Init-inputs, lines 288-296\<close>

text \<open>
  The inner \<open>for ... else\<close>: the collections are searched in order and the search stops
  at the first dataset found.
\<close>

fun findFirst :: "registry \<Rightarrow> datasetType \<Rightarrow> string list \<Rightarrow> datasetRef option \<times> event list" where
  "findFirst reg dsType [] = (None, [])"
| "findFirst reg dsType (collection # rest) =
     (case findDataset reg collection dsType of
        Some result \<Rightarrow> (Some result, [Find collection dsType])
      | None \<Rightarrow>
          (case findFirst reg dsType rest of (r, ev) \<Rightarrow> (r, Find collection dsType # ev)))"

fun resolveInitInputs ::
  "registry \<Rightarrow> originInfo \<Rightarrow> datasetType list \<Rightarrow> (error + datasetRef list) \<times> event list" where
  "resolveInitInputs reg origin [] = (Inr [], [])"
| "resolveInitInputs reg origin (dsType # rest) =
     (case findFirst reg dsType (getInputCollections origin (name dsType)) of
        (None, ev) \<Rightarrow> (Inl (GraphBuilderError (name dsType)), ev)
      | (Some result, ev) \<Rightarrow>
          (case resolveInitInputs reg origin rest of
             (Inl e, ev') \<Rightarrow> (Inl e, ev @ ev')
           | (Inr results, ev') \<Rightarrow> (Inr (result # results), ev @ ev')))"

subsection \<open>Grouping the rows of one task, lines 301-330\<close>

type_synonym refMap = "(dataId \<times> datasetRef) list"
type_synonym typeMap = "(datasetType \<times> refMap) list"
type_synonym quantaMap = "(dataId \<times> typeMap) list"

text \<open>\<open>qlinks\<close>, lines 303-306.\<close>

fun quantumLinks :: "(string \<rightharpoonup> string list) \<Rightarrow> string list \<Rightarrow> error + string list" where
  "quantumLinks dims [] = Inr []"
| "quantumLinks dims (dimensionName # rest) =
     (case dims dimensionName of
        None \<Rightarrow> Inl (KeyError (NameKey dimensionName))
      | Some links \<Rightarrow>
          (case quantumLinks dims rest of Inl e \<Rightarrow> Inl e | Inr qlinks \<Rightarrow> Inr (links @ qlinks)))"

text \<open>\<open>qkey\<close>, line 312.\<close>

fun makeQkey :: "dimensionRow \<Rightarrow> string list \<Rightarrow> error + dataId" where
  "makeQkey row [] = Inr []"
| "makeQkey row (col # cols) =
     (case map_of (rowDataId row) col of
        None \<Rightarrow> Inl (KeyError (NameKey col))
      | Some v \<Rightarrow>
          (case makeQkey row cols of Inl e \<Rightarrow> Inl e | Inr qkey \<Rightarrow> Inr ((col, v) # qkey)))"

text \<open>\<open>_dataRefKey\<close>, lines 315-316: the items of the data id, sorted as tuples.\<close>

definition dataRefKey :: "datasetRef \<Rightarrow> dataId" where
  "dataRefKey dataRef = sort (dataId dataRef)"

text \<open>
  The two inner loops, lines 319-323 and 326-330, have one shape: for every dataset
  type of the task, the row's reference is stored under its key in the type's map.
\<close>

fun addRefs :: "dimensionRow \<Rightarrow> datasetType list \<Rightarrow> typeMap \<Rightarrow> error + typeMap" where
  "addRefs row [] q = Inr q"
| "addRefs row (dsType # rest) q =
     (let dataRefs = (case map_of q dsType of None \<Rightarrow> [] | Some m \<Rightarrow> m)
      in case datasetRefs row dsType of
           None \<Rightarrow> Inl (KeyError (TypeKey dsType))
         | Some dataRef \<Rightarrow>
             addRefs row rest
               (AList.update dsType (AList.update (dataRefKey dataRef) dataRef dataRefs) q))"

definition getDefault :: "('k \<times> 'v list) list \<Rightarrow> 'k \<Rightarrow> 'v list" where
  "getDefault m k = (case map_of m k of None \<Rightarrow> [] | Some v \<Rightarrow> v)"

text \<open>One row, lines 312-330.\<close>

definition addRow ::
  "taskDatasetTypes \<Rightarrow> string list \<Rightarrow> dimensionRow \<Rightarrow> quantaMap \<times> quantaMap
     \<Rightarrow> error + quantaMap \<times> quantaMap" where
  "addRow taskDss qlinks row tq =
     (case makeQkey row qlinks of
        Inl e \<Rightarrow> Inl e
      | Inr qkey \<Rightarrow>
          (case addRefs row (inputs taskDss) (getDefault (fst tq) qkey) of
             Inl e \<Rightarrow> Inl e
           | Inr qinputs \<Rightarrow>
               (case addRefs row (outputs taskDss) (getDefault (snd tq) qkey) of
                  Inl e \<Rightarrow> Inl e
                | Inr qoutputs \<Rightarrow>
                    Inr (AList.update qkey qinputs (fst tq), AList.update qkey qoutputs (snd tq)))))"

fun addRows ::
  "taskDatasetTypes \<Rightarrow> string list \<Rightarrow> dimensionRow list \<Rightarrow> quantaMap \<times> quantaMap
     \<Rightarrow> error + quantaMap \<times> quantaMap" where
  "addRows taskDss qlinks [] tq = Inr tq"
| "addRows taskDss qlinks (row # rows) tq =
     (case addRow taskDss qlinks row tq of
        Inl e \<Rightarrow> Inl e
      | Inr tq' \<Rightarrow> addRows taskDss qlinks rows tq')"

subsection \<open>The quanta of one task, lines 333-361\<close>

text \<open>\<open>chain.from_iterable(dataRefs.values() for dataRefs in m.values())\<close>.\<close>

definition flattenRefs :: "typeMap \<Rightarrow> datasetRef list" where
  "flattenRefs m = concat (map (\<lambda>p. map snd (snd p)) m)"

definition exists_ref :: "datasetRef \<Rightarrow> bool" where
  "exists_ref r = (ref_id r \<noteq> None)"

fun buildQuanta :: "bool \<Rightarrow> string \<Rightarrow> quantaMap \<Rightarrow> quantaMap \<Rightarrow> error + quantum list" where
  "buildQuanta skip tName taskQuantaOutputs [] = Inr []"
| "buildQuanta skip tName taskQuantaOutputs ((qkey, qinputs) # rest) =
     (case map_of taskQuantaOutputs qkey of
        None \<Rightarrow> Inl (KeyError (TupleKey qkey))
      | Some qoutputs \<Rightarrow>
          (let outs = flattenRefs qoutputs
           in if skip \<and> list_all exists_ref outs then buildQuanta skip tName taskQuantaOutputs rest
              else if list_ex exists_ref outs then Inl (OutputExistsError tName outs)
              else (case buildQuanta skip tName taskQuantaOutputs rest of
                      Inl e \<Rightarrow> Inl e
                    | Inr qs \<Rightarrow>
                        Inr (\<lparr>predictedInputs = flattenRefs qinputs, quantumOutputs = outs\<rparr>
                             # qs))))"

text \<open>The body of the loop over the tasks, lines 301-361.\<close>

definition makeTaskNode ::
  "graphBuilder \<Rightarrow> dimensionRow list \<Rightarrow> taskDatasetTypes \<Rightarrow> error + quantumGraphTaskNodes" where
  "makeTaskNode b dimensionVerse taskDss =
     (case quantumLinks (dimensions (registry b)) (quantum_dimensions (config (taskDef taskDss))) of
        Inl e \<Rightarrow> Inl e
      | Inr qlinks \<Rightarrow>
          (case addRows taskDss qlinks dimensionVerse ([], []) of
             Inl e \<Rightarrow> Inl e
           | Inr tq \<Rightarrow>
               (case buildQuanta (skipExisting b) (taskName (taskDef taskDss)) (snd tq) (fst tq) of
                  Inl e \<Rightarrow> Inl e
                | Inr qs \<Rightarrow> Inr \<lparr>nodeTaskDef = taskDef taskDss, quanta = qs\<rparr>)))"

fun makeTaskNodes ::
  "graphBuilder \<Rightarrow> dimensionRow list \<Rightarrow> taskDatasetTypes list
     \<Rightarrow> error + quantumGraphTaskNodes list" where
  "makeTaskNodes b dimensionVerse [] = Inr []"
| "makeTaskNodes b dimensionVerse (taskDss # rest) =
     (case makeTaskNode b dimensionVerse taskDss of
        Inl e \<Rightarrow> Inl e
      | Inr node \<Rightarrow>
          (case makeTaskNodes b dimensionVerse rest of
             Inl e \<Rightarrow> Inl e
           | Inr ns \<Rightarrow> Inr (node # ns)))"

subsection \<open>The whole of \<open>_makeGraph\<close>\<close>

text \<open>\<open>userQuery or ""\<close>, line 273: \<open>None\<close> becomes the empty string.\<close>

definition or_empty :: "string option \<Rightarrow> string" where
  "or_empty userQuery = (case userQuery of None \<Rightarrow> [] | Some s \<Rightarrow> s)"

text \<open>
  The result comes with the calls made to the parser and the registry up to the
  return or the exception. The sets \<open>inputs\<close> and \<open>outputs\<close> are handed to
  \<open>selectDimensions\<close> and stored in the graph as they are; the loops of lines 288 and
  297 iterate the sets \<open>initInputs\<close> and \<open>initOutputs\<close>, in the order \<open>h\<close> of
  the hash table.
\<close>

definition private_makeGraph ::
  "graphBuilder \<Rightarrow> (datasetType \<Rightarrow> nat) \<Rightarrow> taskDatasetTypes list
     \<Rightarrow> datasetType list \<Rightarrow> datasetType list
     \<Rightarrow> datasetType list \<Rightarrow> datasetType list \<Rightarrow> originInfo \<Rightarrow> string option
     \<Rightarrow> (error + quantumGraph) \<times> event list" where
  "private_makeGraph b h taskDatasets ins outs initIns initOuts origin userQuery =
     (let q = or_empty userQuery
      in case private_parseUserQuery (parserYacc b) q of
           Inl e \<Rightarrow> (Inl e, [Parse q])
         | Inr parsedQuery \<Rightarrow>
             (let expr = map_option str_of_tree parsedQuery;
                  ev1 = [Parse q, SelectDimensions expr ins outs]
              in case selectDimensions (registry b) origin expr ins outs of
                   Inl e \<Rightarrow> (Inl e, ev1)
                 | Inr dimensionVerse \<Rightarrow>
                     (case resolveInitInputs (registry b) origin (set_iter h initIns) of
                        (Inl e, ev2) \<Rightarrow> (Inl e, ev1 @ ev2)
                      | (Inr initInputRefs, ev2) \<Rightarrow>
                          (case makeTaskNodes b dimensionVerse taskDatasets of
                             Inl e \<Rightarrow> (Inl e, ev1 @ ev2)
                           | Inr ns \<Rightarrow>
                               (Inr \<lparr>nodes = ns, inputDatasetTypes = ins,
                                     outputDatasetTypes = outs,
                                     graphInitInputs = initInputRefs,
                                     graphInitOutputs =
                                       map (\<lambda>dsType. \<lparr>datasetType = dsType, dataId = [],
                                                       ref_id = None\<rparr>)
                                         (set_iter h initOuts)\<rparr>,
                                ev1 @ ev2)))))"

section \<open>\<open>makeGraph\<close>\<close>

text \<open>Line 183: the task classes of the pipeline are loaded one after the other.\<close>

fun loadAll :: "taskFactory \<Rightarrow> store \<Rightarrow> nat list \<Rightarrow> error + (store \<times> nat list)" where
  "loadAll factory s [] = Inr (s, [])"
| "loadAll factory s (a # rest) =
     (case private_loadTaskClass factory s a of
        Inl e \<Rightarrow> Inl e
      | Inr (s1, a1) \<Rightarrow>
          (case loadAll factory s1 rest of
             Inl e \<Rightarrow> Inl e
           | Inr (s2, taskList) \<Rightarrow> Inr (s2, a1 # taskList)))"

text \<open>
  Lines 188-194: \<open>getter(taskDef.config) or {}\<close>, and the dataset types of the dict's
  values.
\<close>

definition ioTypes :: "(string \<times> datasetType) list option \<Rightarrow> datasetType list" where
  "ioTypes ioObject = (case ioObject of None \<Rightarrow> [] | Some d \<Rightarrow> map snd d)"

definition collectTaskIo :: "taskDef \<Rightarrow> error + taskDatasetTypes" where
  "collectTaskIo td =
     (case taskClass td of
        None \<Rightarrow> Inl (AttributeError ''getInputDatasetTypes'')
      | Some c \<Rightarrow>
          Inr \<lparr>taskDef = td,
               inputs = ioTypes (getInputDatasetTypes c (config td)),
               outputs = ioTypes (getOutputDatasetTypes c (config td)),
               initInputs = ioTypes (getInitInputDatasetTypes c (config td)),
               initOutputs = ioTypes (getInitOutputDatasetTypes c (config td))\<rparr>)"

fun collectAll :: "taskDef list \<Rightarrow> error + taskDatasetTypes list" where
  "collectAll [] = Inr []"
| "collectAll (td # rest) =
     (case collectTaskIo td of
        Inl e \<Rightarrow> Inl e
      | Inr t \<Rightarrow> (case collectAll rest of Inl e \<Rightarrow> Inl e | Inr ts \<Rightarrow> Inr (t # ts)))"

text \<open>
  \<open>makeGraph\<close> on a pipeline given as the references of its \<open>TaskDef\<close>s, with
  the order \<open>h\<close> in which sets of dataset types are iterated. It returns the graph or
  the exception, the calls made, and the store it leaves.
\<close>

definition makeGraph ::
  "graphBuilder \<Rightarrow> (datasetType \<Rightarrow> nat) \<Rightarrow> store \<Rightarrow> nat list \<Rightarrow> originInfo
     \<Rightarrow> string option \<Rightarrow> (error + quantumGraph) \<times> event list \<times> store" where
  "makeGraph b h s pipeline origin userQuery =
     (case loadAll (taskFactory b) s pipeline of
        Inl e \<Rightarrow> (Inl e, [], s)
      | Inr (s', taskList) \<Rightarrow>
          (case collectAll (map (\<lambda>a. s' ! a) taskList) of
             Inl e \<Rightarrow> (Inl e, [], s')
           | Inr taskDatasets \<Rightarrow>
               (case makeFullIODatasetTypes taskDatasets of
                  Inl e \<Rightarrow> (Inl e, [], s')
                | Inr (ins, outs, initIns, initOuts) \<Rightarrow>
                    (case private_makeGraph b h taskDatasets ins outs initIns initOuts origin
                            userQuery of
                       (r, ev) \<Rightarrow> (r, ev, s')))))"

section \<open>Properties of the global reduction\<close>

lemma set_set_add: "set (set_add x xs) = insert x (set xs)"
  by (auto simp: set_add_def)

lemma distinct_set_add: "distinct xs \<Longrightarrow> distinct (set_add x xs)"
  by (simp add: set_add_def)

lemma set_set_iter: "set (set_iter h xs) = set xs"
  by (simp add: set_iter_def)

lemma mset_set_iter: "mset (set_iter h xs) = mset xs"
  by (simp add: set_iter_def)

lemma distinct_set_iter: "distinct (set_iter h xs) = distinct xs"
  by (simp add: set_iter_def)

lemma set_iter_single: "set_iter h [] = []" "set_iter h [x] = [x]"
  by (simp_all add: set_iter_def)

lemma rank_in_nth: "distinct ys \<Longrightarrow> i < length ys \<Longrightarrow> rank_in ys (ys ! i) = i"
proof (induction ys arbitrary: i)
  case Nil
  then show ?case by simp
next
  case (Cons y ys)
  show ?case
  proof (cases i)
    case 0
    then show ?thesis by (simp add: rank_in_def)
  next
    case (Suc j)
    with Cons.prems have "ys ! j \<in> set ys" "y \<notin> set ys" by simp_all
    then have "y \<noteq> ys ! j" by blast
    with Cons.IH [of j] Cons.prems Suc show ?thesis by (simp add: rank_in_def)
  qed
qed

lemma map_rank_in: "distinct ys \<Longrightarrow> map (rank_in ys) ys = [0..<length ys]"
  by (rule nth_equalityI) (simp_all add: rank_in_nth)

lemma filter_eq_single: "distinct ys \<Longrightarrow> k \<in> set ys \<Longrightarrow> filter (\<lambda>x. k = x) ys = [k]"
  by (induction ys) (auto simp: filter_empty_conv)

text \<open>
  No order of iteration is excluded: a set iterates as any given arrangement \<open>ys\<close> of
  its elements under the ranks of \<open>ys\<close>.
\<close>

lemma set_iter_any_order:
  assumes "distinct ys" and "mset xs = mset ys"
  shows "set_iter (rank_in ys) xs = ys"
  unfolding set_iter_def
proof (rule properties_for_sort_key)
  show "mset ys = mset xs" using assms(2) by simp
  show "sorted (map (rank_in ys) ys)" by (simp add: map_rank_in [OF assms(1)])
  fix k assume k: "k \<in> set ys"
  have dx: "distinct xs" using assms by (metis mset_eq_imp_distinct_iff)
  have inj: "rank_in ys k = rank_in ys x \<longleftrightarrow> k = x" if "x \<in> set ys" for x
    using that k assms(1) by (metis in_set_conv_nth rank_in_nth)
  have sx: "set xs = set ys" using assms(2) by (metis set_mset_mset)
  have "filter (\<lambda>x. rank_in ys k = rank_in ys x) ys = filter (\<lambda>x. k = x) ys"
    by (rule filter_cong) (simp_all add: inj)
  moreover have "filter (\<lambda>x. rank_in ys k = rank_in ys x) xs = filter (\<lambda>x. k = x) xs"
    by (rule filter_cong) (simp_all add: inj sx)
  moreover have "filter (\<lambda>x. k = x) ys = [k]" using assms(1) k by (rule filter_eq_single)
  moreover have "filter (\<lambda>x. k = x) xs = [k]" using dx k sx by (simp add: filter_eq_single)
  ultimately show "filter (\<lambda>x. rank_in ys k = rank_in ys x) ys =
      filter (\<lambda>x. rank_in ys k = rank_in ys x) xs" by simp
qed

text \<open>
  The dataset types of a pipeline in the order the loop of lines 229-234 visits them:
  task after task, and within a task the inputs, the outputs, the init-inputs and the
  init-outputs. \<open>firstDeclared\<close> and \<open>lastDeclared\<close> give, for a name, the first and
  the last dataset type of that name in such a sequence.
\<close>

definition allDeclared :: "taskDatasetTypes list \<Rightarrow> datasetType list" where
  "allDeclared tds = concat (map (\<lambda>t. inputs t @ outputs t @ initInputs t @ initOutputs t) tds)"

definition lastDeclared :: "datasetType list \<Rightarrow> string \<rightharpoonup> datasetType" where
  "lastDeclared ds = map_of (rev (map (\<lambda>d. (name d, d)) ds))"

definition firstDeclared :: "datasetType list \<Rightarrow> string \<rightharpoonup> datasetType" where
  "firstDeclared ds = map_of (map (\<lambda>d. (name d, d)) ds)"

lemma lastDeclared_append: "lastDeclared (xs @ ys) = lastDeclared xs ++ lastDeclared ys"
  by (simp add: lastDeclared_def)

lemma lastDeclared_Nil: "lastDeclared [] = Map.empty"
  by (simp add: lastDeclared_def)

lemma lastDeclared_name: "lastDeclared ds n = Some d \<Longrightarrow> name d = n \<and> d \<in> set ds"
  unfolding lastDeclared_def by (auto dest!: map_of_SomeD)

lemma dom_lastDeclared: "dom (lastDeclared ds) = name ` set ds"
  by (auto simp: lastDeclared_def dom_map_of_conv_image_fst image_iff)

lemma addTypes_names: "set (fst (addTypes ds (s, a))) = set s \<union> name ` set ds"
  by (induction ds arbitrary: s a) (auto simp: set_set_add)

lemma addTypes_distinct: "distinct s \<Longrightarrow> distinct (fst (addTypes ds (s, a)))"
  by (induction ds arbitrary: s a) (auto simp: distinct_set_add)

lemma addTypes_all: "map_of (snd (addTypes ds (s, a))) = map_of a ++ lastDeclared ds"
proof (induction ds arbitrary: s a)
  case Nil
  show ?case by (simp add: lastDeclared_Nil)
next
  case (Cons d ds)
  have "lastDeclared (d # ds) = [name d \<mapsto> d] ++ lastDeclared ds"
    using lastDeclared_append [of "[d]" ds] by (simp add: lastDeclared_def)
  then show ?case
    by (auto simp: Cons.IH update_conv' fun_eq_iff map_add_def split: option.splits)
qed

lemma addTypes_eq:
  "addTypes ds (s, a) = (s', a') \<Longrightarrow>
     set s' = set s \<union> name ` set ds \<and> map_of a' = map_of a ++ lastDeclared ds"
  using addTypes_names [of ds s a] addTypes_all [of ds s a] by simp

lemma addTask_names:
  "set (inputNames (addTask t st)) = set (inputNames st) \<union> name ` set (inputs t)"
  "set (outputNames (addTask t st)) = set (outputNames st) \<union> name ` set (outputs t)"
  "set (initInputNames (addTask t st)) = set (initInputNames st) \<union> name ` set (initInputs t)"
  "set (initOutputNames (addTask t st)) = set (initOutputNames st) \<union> name ` set (initOutputs t)"
  by (simp_all add: addTask_def split: prod.splits) (blast dest: addTypes_eq)+

lemma addTask_all:
  "map_of (allDatasetTypes (addTask t st)) =
     map_of (allDatasetTypes st) ++ lastDeclared (inputs t @ outputs t @ initInputs t @ initOutputs t)"
proof -
  obtain i a1 where 1: "addTypes (inputs t) (inputNames st, allDatasetTypes st) = (i, a1)"
    by (cases "addTypes (inputs t) (inputNames st, allDatasetTypes st)")
  obtain out a2 where 2: "addTypes (outputs t) (outputNames st, a1) = (out, a2)"
    by (cases "addTypes (outputs t) (outputNames st, a1)")
  obtain ii a3 where 3: "addTypes (initInputs t) (initInputNames st, a2) = (ii, a3)"
    by (cases "addTypes (initInputs t) (initInputNames st, a2)")
  obtain io a4 where 4: "addTypes (initOutputs t) (initOutputNames st, a3) = (io, a4)"
    by (cases "addTypes (initOutputs t) (initOutputNames st, a3)")
  show ?thesis
    using addTypes_eq [OF 1] addTypes_eq [OF 2] addTypes_eq [OF 3] addTypes_eq [OF 4]
    by (simp add: addTask_def 1 2 3 4 lastDeclared_append)
qed

lemma addTasks_names:
  "set (inputNames (addTasks ts st)) = set (inputNames st) \<union> (\<Union>t\<in>set ts. name ` set (inputs t))"
  "set (outputNames (addTasks ts st)) = set (outputNames st) \<union> (\<Union>t\<in>set ts. name ` set (outputs t))"
  "set (initInputNames (addTasks ts st)) = set (initInputNames st) \<union> (\<Union>t\<in>set ts. name ` set (initInputs t))"
  "set (initOutputNames (addTasks ts st)) = set (initOutputNames st) \<union> (\<Union>t\<in>set ts. name ` set (initOutputs t))"
  by (induction ts arbitrary: st; auto simp: addTask_names)+

lemma addTasks_all:
  "map_of (allDatasetTypes (addTasks ts st)) = map_of (allDatasetTypes st) ++ lastDeclared (allDeclared ts)"
  by (induction ts arbitrary: st)
    (simp_all add: allDeclared_def lastDeclared_Nil addTask_all lastDeclared_append)

lemma lookupAll_ok:
  "set ns \<subseteq> dom (map_of a) \<Longrightarrow>
   \<exists>r. lookupAll a ns acc = Inr r \<and> set r = set acc \<union> (\<lambda>n. the (map_of a n)) ` set ns"
proof (induction ns arbitrary: acc)
  case Nil
  show ?case by simp
next
  case (Cons n ns)
  then obtain d where d: "map_of a n = Some d" by auto
  from Cons.prems have "set ns \<subseteq> dom (map_of a)" by simp
  from Cons.IH [OF this, of "set_add d acc"] d show ?case
    by (auto simp: set_set_add)
qed


definition declaredNames :: "(taskDatasetTypes \<Rightarrow> datasetType list) \<Rightarrow> taskDatasetTypes list \<Rightarrow> string set" where
  "declaredNames category tds = (\<Union>t\<in>set tds. name ` set (category t))"

lemma declaredNames_dom:
  "declaredNames inputs tds \<subseteq> dom (lastDeclared (allDeclared tds))"
  "declaredNames outputs tds \<subseteq> dom (lastDeclared (allDeclared tds))"
  "declaredNames initInputs tds \<subseteq> dom (lastDeclared (allDeclared tds))"
  "declaredNames initOutputs tds \<subseteq> dom (lastDeclared (allDeclared tds))"
  by (auto simp: declaredNames_def dom_lastDeclared allDeclared_def)

lemma canonical_image:
  "N \<subseteq> dom (lastDeclared ds) \<Longrightarrow>
     (\<lambda>n. the (lastDeclared ds n)) ` N = {d. \<exists>n\<in>N. lastDeclared ds n = Some d}"
  by (force simp: image_iff)

lemma canonical_names:
  "N \<subseteq> dom (lastDeclared ds) \<Longrightarrow> name ` {d. \<exists>n\<in>N. lastDeclared ds n = Some d} = N"
  by (force simp: image_iff dest: lastDeclared_name)

lemma makeFullIODatasetTypes_char:
  "\<exists>gi go gii gio. makeFullIODatasetTypes tds = Inr (gi, go, gii, gio) \<and>
     set gi = {d. \<exists>n\<in>declaredNames inputs tds - declaredNames outputs tds.
                  lastDeclared (allDeclared tds) n = Some d} \<and>
     set go = {d. \<exists>n\<in>declaredNames outputs tds. lastDeclared (allDeclared tds) n = Some d} \<and>
     set gii = {d. \<exists>n\<in>declaredNames initInputs tds - declaredNames initOutputs tds.
                  lastDeclared (allDeclared tds) n = Some d} \<and>
     set gio = {d. \<exists>n\<in>declaredNames initOutputs tds. lastDeclared (allDeclared tds) n = Some d}"
proof -
  define st where "st = addTasks tds emptyIoState"
  define L where "L = lastDeclared (allDeclared tds)"
  have all: "map_of (allDatasetTypes st) = L"
    by (simp add: st_def L_def addTasks_all emptyIoState_def)
  have names: "set (inputNames st) = declaredNames inputs tds"
    "set (outputNames st) = declaredNames outputs tds"
    "set (initInputNames st) = declaredNames initInputs tds"
    "set (initOutputNames st) = declaredNames initOutputs tds"
    by (simp_all add: st_def addTasks_names emptyIoState_def declaredNames_def)
  have dom: "declaredNames inputs tds \<subseteq> dom L" "declaredNames outputs tds \<subseteq> dom L"
    "declaredNames initInputs tds \<subseteq> dom L" "declaredNames initOutputs tds \<subseteq> dom L"
    unfolding L_def by (rule declaredNames_dom)+
  let ?i = "filter (\<lambda>n. n \<notin> set (outputNames st)) (inputNames st)"
  let ?ii = "filter (\<lambda>n. n \<notin> set (initOutputNames st)) (initInputNames st)"
  have si: "set ?i = declaredNames inputs tds - declaredNames outputs tds"
    and sii: "set ?ii = declaredNames initInputs tds - declaredNames initOutputs tds"
    by (auto simp: names)
  have di: "set ?i \<subseteq> dom L" and dii: "set ?ii \<subseteq> dom L"
    using dom unfolding si sii by blast+
  obtain gi where gi: "lookupAll (allDatasetTypes st) ?i [] = Inr gi"
    "set gi = (\<lambda>n. the (L n)) ` set ?i"
    using lookupAll_ok [of ?i "allDatasetTypes st" "[]"] di by (auto simp: all)
  obtain go where go: "lookupAll (allDatasetTypes st) (outputNames st) [] = Inr go"
    "set go = (\<lambda>n. the (L n)) ` set (outputNames st)"
    using lookupAll_ok [of "outputNames st" "allDatasetTypes st" "[]"] dom by (auto simp: all names)
  obtain gii where gii: "lookupAll (allDatasetTypes st) ?ii [] = Inr gii"
    "set gii = (\<lambda>n. the (L n)) ` set ?ii"
    using lookupAll_ok [of ?ii "allDatasetTypes st" "[]"] dii by (auto simp: all)
  obtain gio where gio: "lookupAll (allDatasetTypes st) (initOutputNames st) [] = Inr gio"
    "set gio = (\<lambda>n. the (L n)) ` set (initOutputNames st)"
    using lookupAll_ok [of "initOutputNames st" "allDatasetTypes st" "[]"] dom by (auto simp: all names)
  have res: "makeFullIODatasetTypes tds = Inr (gi, go, gii, gio)"
    unfolding makeFullIODatasetTypes_def Let_def st_def [symmetric]
    by (simp add: gi(1) go(1) gii(1) gio(1))
  have "set gi = {d. \<exists>n\<in>declaredNames inputs tds - declaredNames outputs tds. L n = Some d}"
    unfolding gi(2) si [symmetric] L_def using di unfolding L_def by (rule canonical_image)
  moreover have "set go = {d. \<exists>n\<in>declaredNames outputs tds. L n = Some d}"
    unfolding go(2) names L_def using dom(2) unfolding L_def by (rule canonical_image)
  moreover have "set gii = {d. \<exists>n\<in>declaredNames initInputs tds - declaredNames initOutputs tds. L n = Some d}"
    unfolding gii(2) sii [symmetric] L_def using dii unfolding L_def by (rule canonical_image)
  moreover have "set gio = {d. \<exists>n\<in>declaredNames initOutputs tds. L n = Some d}"
    unfolding gio(2) names L_def using dom(4) unfolding L_def by (rule canonical_image)
  ultimately show ?thesis using res unfolding L_def by blast
qed

text \<open>
  Claim C3. The reduction always returns. By name, the global inputs are the names of
  all tasks' inputs minus the names of all tasks' outputs, the global init-inputs the
  names of all init-inputs minus the names of all init-outputs, and the global outputs
  and init-outputs the names of all outputs and of all init-outputs. Hence no dataset
  type is both a global input and a global output, nor both a global init-input and a
  global init-output.
\<close>

theorem global_reduction:
  "\<exists>gi go gii gio. makeFullIODatasetTypes tds = Inr (gi, go, gii, gio) \<and>
     name ` set gi = declaredNames inputs tds - declaredNames outputs tds \<and>
     name ` set go = declaredNames outputs tds \<and>
     name ` set gii = declaredNames initInputs tds - declaredNames initOutputs tds \<and>
     name ` set gio = declaredNames initOutputs tds \<and>
     set gi \<inter> set go = {} \<and> set gii \<inter> set gio = {}"
proof -
  obtain gi go gii gio where r: "makeFullIODatasetTypes tds = Inr (gi, go, gii, gio)"
    and s: "set gi = {d. \<exists>n\<in>declaredNames inputs tds - declaredNames outputs tds.
                  lastDeclared (allDeclared tds) n = Some d}"
     "set go = {d. \<exists>n\<in>declaredNames outputs tds. lastDeclared (allDeclared tds) n = Some d}"
     "set gii = {d. \<exists>n\<in>declaredNames initInputs tds - declaredNames initOutputs tds.
                  lastDeclared (allDeclared tds) n = Some d}"
     "set gio = {d. \<exists>n\<in>declaredNames initOutputs tds. lastDeclared (allDeclared tds) n = Some d}"
    using makeFullIODatasetTypes_char [of tds] by blast
  have d: "declaredNames inputs tds - declaredNames outputs tds \<subseteq> dom (lastDeclared (allDeclared tds))"
    "declaredNames initInputs tds - declaredNames initOutputs tds \<subseteq> dom (lastDeclared (allDeclared tds))"
    using declaredNames_dom [of tds] by blast+
  have n: "name ` set gi = declaredNames inputs tds - declaredNames outputs tds"
    "name ` set go = declaredNames outputs tds"
    "name ` set gii = declaredNames initInputs tds - declaredNames initOutputs tds"
    "name ` set gio = declaredNames initOutputs tds"
    unfolding s using d declaredNames_dom [of tds] by (simp_all add: canonical_names)
  have "set gi \<inter> set go = {}" "set gii \<inter> set gio = {}"
    using n by blast+
  with r n show ?thesis by blast
qed


subsection \<open>Which declaration of a name is kept\<close>

text \<open>
  Two tasks declare an input named \<open>a\<close>, the first with one dimension, the second
  with none.
\<close>

definition c4_taskDef :: "string \<Rightarrow> taskDef" where
  "c4_taskDef l = \<lparr>label = l, taskName = l, taskClass = None,
     config = \<lparr>quantum_dimensions = [], settings = []\<rparr>\<rparr>"

definition c4_first :: datasetType where
  "c4_first = \<lparr>name = ''a'', dsDimensions = [''v'']\<rparr>"

definition c4_second :: datasetType where
  "c4_second = \<lparr>name = ''a'', dsDimensions = []\<rparr>"

definition c4_tasks :: "taskDatasetTypes list" where
  "c4_tasks =
     [\<lparr>taskDef = c4_taskDef ''t1'', inputs = [c4_first], outputs = [], initInputs = [], initOutputs = []\<rparr>,
      \<lparr>taskDef = c4_taskDef ''t2'', inputs = [c4_second], outputs = [], initInputs = [], initOutputs = []\<rparr>]"

text \<open>
  Claim C4, as stated, fails: the first declaration of \<open>a\<close> is \<open>c4_first\<close>, and
  the global inputs hold \<open>c4_second\<close>, the last one.
\<close>

theorem first_occurrence_counterexample:
  "firstDeclared (allDeclared c4_tasks) ''a'' = Some c4_first \<and>
   makeFullIODatasetTypes c4_tasks = Inr ([c4_second], [], [], []) \<and>
   c4_first \<noteq> c4_second"
  by (simp add: firstDeclared_def allDeclared_def c4_tasks_def c4_first_def c4_second_def
      makeFullIODatasetTypes_def addTask_def emptyIoState_def set_add_def)

text \<open>
  Claim C4, amended. Line 234 overwrites the entry of a name at every declaration, so
  the table \<open>allDatasetTypes\<close> maps every name to its last declaration in the order of
  the loop, and each of the four returned sets holds, for each of its names, that last
  declaration.
\<close>

theorem canonical_last_occurrence:
  "\<exists>gi go gii gio. makeFullIODatasetTypes tds = Inr (gi, go, gii, gio) \<and>
     map_of (allDatasetTypes (addTasks tds emptyIoState)) = lastDeclared (allDeclared tds) \<and>
     set gi = {d. \<exists>n\<in>declaredNames inputs tds - declaredNames outputs tds.
                  lastDeclared (allDeclared tds) n = Some d} \<and>
     set go = {d. \<exists>n\<in>declaredNames outputs tds. lastDeclared (allDeclared tds) n = Some d} \<and>
     set gii = {d. \<exists>n\<in>declaredNames initInputs tds - declaredNames initOutputs tds.
                  lastDeclared (allDeclared tds) n = Some d} \<and>
     set gio = {d. \<exists>n\<in>declaredNames initOutputs tds. lastDeclared (allDeclared tds) n = Some d}"
proof -
  have "map_of (allDatasetTypes (addTasks tds emptyIoState)) = lastDeclared (allDeclared tds)"
    by (simp add: addTasks_all emptyIoState_def)
  with makeFullIODatasetTypes_char [of tds] show ?thesis by blast
qed

section \<open>Loading the task classes\<close>

lemma loadTaskClass_grows:
  "private_loadTaskClass f s a = Inr (s', a') \<Longrightarrow> \<exists>new. s' = s @ new"
  by (auto simp: private_loadTaskClass_def split: option.splits sum.splits prod.splits)

lemma loadAll_grows:
  "loadAll f s as = Inr (s', bs) \<Longrightarrow> \<exists>new. s' = s @ new"
proof (induction as arbitrary: s s' bs)
  case Nil
  then show ?case by simp
next
  case (Cons a as)
  from Cons.prems obtain s1 a1 s2 tl where
    1: "private_loadTaskClass f s a = Inr (s1, a1)" and 2: "loadAll f s1 as = Inr (s2, tl)"
    and 3: "s' = s2"
    by (auto split: sum.splits prod.splits)
  from loadTaskClass_grows [OF 1] Cons.IH [OF 2] 3 show ?case by auto
qed

lemma makeGraph_store:
  "\<exists>new. snd (snd (makeGraph b h s pipeline origin userQuery)) = s @ new"
proof (cases "loadAll (taskFactory b) s pipeline")
  case (Inl e)
  then show ?thesis by (simp add: makeGraph_def)
next
  case (Inr p)
  obtain s' tl where p: "p = (s', tl)" by (cases p)
  from loadAll_grows [of "taskFactory b" s pipeline s' tl] Inr p
  obtain new where "s' = s @ new" by auto
  then show ?thesis using Inr p
    by (auto simp: makeGraph_def split: sum.splits prod.splits)
qed

text \<open>
  Claim C8. Let \<open>a\<close> be the reference of a \<open>TaskDef\<close> in the store. If its class is
  loaded, \<open>_loadTaskClass\<close> returns \<open>a\<close> and the store as they are. If it is not
  and the factory loads the class, the result is a new reference, different from \<open>a\<close>,
  to a copy with the class and the fully-qualified name set. Whenever the call
  returns, every object of the old store is unchanged (the store has only grown), the
  returned \<open>TaskDef\<close> has its class, keeps the label and the configuration, and a
  second call on it changes nothing. \<open>makeGraph\<close> as a whole leaves every \<open>TaskDef\<close>
  of the caller as it was.
\<close>

theorem loadTaskClass_frame:
  assumes "a < length s"
  shows "(taskClass (s ! a) \<noteq> None \<longrightarrow> private_loadTaskClass f s a = Inr (s, a)) \<and>
    (\<forall>tClass tName. taskClass (s ! a) = None \<longrightarrow> loadTaskClass f (taskName (s ! a)) = Inr (tClass, tName) \<longrightarrow>
       (\<exists>s' a'. private_loadTaskClass f s a = Inr (s', a') \<and> a' \<noteq> a \<and> a' = length s \<and>
          s' ! a' = (s ! a)\<lparr>taskClass := Some tClass, taskName := tName\<rparr>)) \<and>
    (\<forall>s' a'. private_loadTaskClass f s a = Inr (s', a') \<longrightarrow>
       (\<exists>new. s' = s @ new) \<and> (\<forall>i<length s. s' ! i = s ! i) \<and> a' < length s' \<and>
       taskClass (s' ! a') \<noteq> None \<and>
       label (s' ! a') = label (s ! a) \<and> config (s' ! a') = config (s ! a) \<and>
       private_loadTaskClass f s' a' = Inr (s', a')) \<and>
    (\<exists>new. snd (snd (makeGraph b h s pipeline origin userQuery)) = s @ new)"
proof (intro conjI allI impI)
  show "private_loadTaskClass f s a = Inr (s, a)" if "taskClass (s ! a) \<noteq> None"
    using that by (auto simp: private_loadTaskClass_def)
next
  fix tClass tName
  assume "taskClass (s ! a) = None" "loadTaskClass f (taskName (s ! a)) = Inr (tClass, tName)"
  then show "\<exists>s' a'. private_loadTaskClass f s a = Inr (s', a') \<and> a' \<noteq> a \<and> a' = length s \<and>
          s' ! a' = (s ! a)\<lparr>taskClass := Some tClass, taskName := tName\<rparr>"
    using assms by (simp add: private_loadTaskClass_def)
next
  fix s' a'
  assume r: "private_loadTaskClass f s a = Inr (s', a')"
  have g: "\<exists>new. s' = s @ new" using r by (rule loadTaskClass_grows)
  show "\<exists>new. s' = s @ new" by (rule g)
  show "s' ! i = s ! i" if "i < length s" for i using g that by (auto simp: nth_append)
  show "a' < length s'" using r assms
    by (auto simp: private_loadTaskClass_def split: option.splits sum.splits prod.splits)
  show "taskClass (s' ! a') \<noteq> None" using r assms
    by (auto simp: private_loadTaskClass_def split: option.splits sum.splits prod.splits)
  then show "private_loadTaskClass f s' a' = Inr (s', a')"
    by (auto simp: private_loadTaskClass_def)
  show "label (s' ! a') = label (s ! a)" using r assms
    by (auto simp: private_loadTaskClass_def split: option.splits sum.splits prod.splits)
  show "config (s' ! a') = config (s ! a)" using r assms
    by (auto simp: private_loadTaskClass_def split: option.splits sum.splits prod.splits)
next
  show "\<exists>new. snd (snd (makeGraph b h s pipeline origin userQuery)) = s @ new"
    by (rule makeGraph_store)
qed



section \<open>Init-inputs and the order of the calls\<close>

lemma findFirst_None:
  "fst (findFirst reg d cs) = None \<longleftrightarrow> (\<forall>c\<in>set cs. findDataset reg c d = None)"
  by (induction cs) (auto split: option.splits prod.splits)

lemma findFirst_Some:
  "fst (findFirst reg d cs) = Some r \<Longrightarrow>
     \<exists>cs1 c cs2. cs = cs1 @ c # cs2 \<and> (\<forall>c'\<in>set cs1. findDataset reg c' d = None) \<and>
        findDataset reg c d = Some r"
proof (induction cs)
  case Nil
  then show ?case by simp
next
  case (Cons c cs)
  show ?case
  proof (cases "findDataset reg c d")
    case None
    with Cons.prems have "fst (findFirst reg d cs) = Some r"
      by (simp split: prod.splits)
    from Cons.IH [OF this] obtain cs1 c' cs2 where
      "cs = cs1 @ c' # cs2" "\<forall>x\<in>set cs1. findDataset reg x d = None" "findDataset reg c' d = Some r"
      by blast
    with None have "c # cs = (c # cs1) @ c' # cs2 \<and> (\<forall>x\<in>set (c # cs1). findDataset reg x d = None) \<and>
        findDataset reg c' d = Some r" by simp
    then show ?thesis by blast
  next
    case (Some r')
    with Cons.prems have "r' = r" by simp
    with Some have "c # cs = [] @ c # cs \<and> (\<forall>x\<in>set []. findDataset reg x d = None) \<and>
        findDataset reg c d = Some r" by simp
    then show ?thesis by blast
  qed
qed

fun isFind :: "event \<Rightarrow> bool" where
  "isFind (Find c d) = True"
| "isFind e = False"

lemma findFirst_events: "list_all isFind (snd (findFirst reg d cs))"
  by (induction cs) (auto split: option.splits prod.splits)

definition missing :: "registry \<Rightarrow> originInfo \<Rightarrow> datasetType \<Rightarrow> bool" where
  "missing reg origin d = list_all (\<lambda>c. findDataset reg c d = None) (getInputCollections origin (name d))"

definition firstMatch :: "registry \<Rightarrow> originInfo \<Rightarrow> datasetType \<Rightarrow> datasetRef \<Rightarrow> bool" where
  "firstMatch reg origin d r =
     (\<exists>cs1 c cs2. getInputCollections origin (name d) = cs1 @ c # cs2 \<and>
        list_all (\<lambda>c'. findDataset reg c' d = None) cs1 \<and> findDataset reg c d = Some r)"

lemma findFirst_missing:
  "fst (findFirst reg d (getInputCollections origin (name d))) = None \<longleftrightarrow> missing reg origin d"
  by (simp add: findFirst_None missing_def list_all_iff)

lemma findFirst_firstMatch:
  "fst (findFirst reg d (getInputCollections origin (name d))) = Some r \<Longrightarrow> firstMatch reg origin d r"
  unfolding firstMatch_def list_all_iff by (rule findFirst_Some)

lemma resolve_events: "list_all isFind (snd (resolveInitInputs reg origin ds))"
proof (induction ds)
  case Nil
  show ?case by simp
next
  case (Cons d ds)
  obtain r ev where f: "findFirst reg d (getInputCollections origin (name d)) = (r, ev)"
    by (cases "findFirst reg d (getInputCollections origin (name d))")
  have "list_all isFind ev" using findFirst_events [of reg d "getInputCollections origin (name d)"] f
    by simp
  with Cons.IH f show ?case
    by (auto split: option.splits prod.splits sum.splits)
qed

lemma resolve_missing:
  "\<exists>d\<in>set ds. missing reg origin d \<Longrightarrow>
   \<exists>ds1 d' ds2. ds = ds1 @ d' # ds2 \<and> list_all (\<lambda>x. \<not> missing reg origin x) ds1 \<and>
      missing reg origin d' \<and>
      fst (resolveInitInputs reg origin ds) = Inl (GraphBuilderError (name d'))"
proof (induction ds)
  case Nil
  then show ?case by simp
next
  case (Cons d ds)
  obtain r ev where f: "findFirst reg d (getInputCollections origin (name d)) = (r, ev)"
    by (cases "findFirst reg d (getInputCollections origin (name d))")
  show ?case
  proof (cases r)
    case None
    with f have m: "missing reg origin d" using findFirst_missing [of reg d origin] by simp
    from f None have "fst (resolveInitInputs reg origin (d # ds)) = Inl (GraphBuilderError (name d))"
      by simp
    with m have "d # ds = [] @ d # ds \<and> list_all (\<lambda>x. \<not> missing reg origin x) [] \<and>
      missing reg origin d \<and>
      fst (resolveInitInputs reg origin (d # ds)) = Inl (GraphBuilderError (name d))" by simp
    then show ?thesis by blast
  next
    case (Some x)
    with f have nm: "\<not> missing reg origin d" using findFirst_missing [of reg d origin] by simp
    with Cons.prems have "\<exists>d\<in>set ds. missing reg origin d" by auto
    from Cons.IH [OF this] obtain ds1 d' ds2 where
      1: "ds = ds1 @ d' # ds2" "list_all (\<lambda>x. \<not> missing reg origin x) ds1" "missing reg origin d'"
      "fst (resolveInitInputs reg origin ds) = Inl (GraphBuilderError (name d'))" by blast
    from 1(4) f Some have "fst (resolveInitInputs reg origin (d # ds)) = Inl (GraphBuilderError (name d'))"
      by (auto split: prod.splits sum.splits)
    with 1 nm have "d # ds = (d # ds1) @ d' # ds2 \<and> list_all (\<lambda>x. \<not> missing reg origin x) (d # ds1) \<and>
      missing reg origin d' \<and>
      fst (resolveInitInputs reg origin (d # ds)) = Inl (GraphBuilderError (name d'))" by simp
    then show ?thesis by blast
  qed
qed

lemma resolve_ok:
  "fst (resolveInitInputs reg origin ds) = Inr rs \<Longrightarrow> list_all2 (firstMatch reg origin) ds rs"
proof (induction ds arbitrary: rs)
  case Nil
  then show ?case by simp
next
  case (Cons d ds)
  obtain r ev where f: "findFirst reg d (getInputCollections origin (name d)) = (r, ev)"
    by (cases "findFirst reg d (getInputCollections origin (name d))")
  obtain r2 ev2 where g: "resolveInitInputs reg origin ds = (r2, ev2)"
    by (cases "resolveInitInputs reg origin ds")
  from Cons.prems f g obtain x rs' where x: "r = Some x" "r2 = Inr rs'" "rs = x # rs'"
    by (auto split: option.splits sum.splits)
  have "firstMatch reg origin d x" using findFirst_firstMatch [of reg d origin x] f x by simp
  moreover have "list_all2 (firstMatch reg origin) ds rs'" using Cons.IH [of rs'] g x by simp
  ultimately show ?case using x by simp
qed


lemma makeGraph_reaches:
  assumes "loadAll (taskFactory b) s pipeline = Inr (s', taskList)"
    and "collectAll (map (\<lambda>a. s' ! a) taskList) = Inr tds"
    and "makeFullIODatasetTypes tds = Inr (ins, outs, initIns, initOuts)"
  shows "makeGraph b h s pipeline origin userQuery =
     (fst (private_makeGraph b h tds ins outs initIns initOuts origin userQuery),
      snd (private_makeGraph b h tds ins outs initIns initOuts origin userQuery), s')"
  using assms by (simp add: makeGraph_def split: prod.splits)

lemmas pm_defs = private_makeGraph_def private_parseUserQuery_def Let_def




lemma pm_missing:
  assumes "parserYacc b (or_empty userQuery) = Inr pq"
    and "selectDimensions (registry b) origin (map_option str_of_tree pq) ins outs = Inr rows"
    and "\<exists>d\<in>set initIns. missing (registry b) origin d"
  shows "\<exists>ds1 d' ds2 ev. set_iter h initIns = ds1 @ d' # ds2 \<and>
      list_all (\<lambda>x. \<not> missing (registry b) origin x) ds1 \<and> missing (registry b) origin d' \<and>
      list_all isFind ev \<and>
      private_makeGraph b h tds ins outs initIns initOuts origin userQuery =
        (Inl (GraphBuilderError (name d')),
         Parse (or_empty userQuery) # SelectDimensions (map_option str_of_tree pq) ins outs # ev)"
proof -
  from assms(3) have "\<exists>d\<in>set (set_iter h initIns). missing (registry b) origin d"
    by (simp add: set_set_iter)
  from resolve_missing [OF this] obtain ds1 d' ds2 where
    1: "set_iter h initIns = ds1 @ d' # ds2" "list_all (\<lambda>x. \<not> missing (registry b) origin x) ds1"
      "missing (registry b) origin d'"
      "fst (resolveInitInputs (registry b) origin (set_iter h initIns)) = Inl (GraphBuilderError (name d'))"
    by blast
  obtain ev where ev: "resolveInitInputs (registry b) origin (set_iter h initIns) = (Inl (GraphBuilderError (name d')), ev)"
    using 1(4) by (cases "resolveInitInputs (registry b) origin (set_iter h initIns)") simp
  have f: "list_all isFind ev" using resolve_events [of "registry b" origin "set_iter h initIns"] ev by simp
  have "private_makeGraph b h tds ins outs initIns initOuts origin userQuery =
        (Inl (GraphBuilderError (name d')),
         Parse (or_empty userQuery) # SelectDimensions (map_option str_of_tree pq) ins outs # ev)"
    using assms(1,2) ev by (simp add: pm_defs)
  with 1 f show ?thesis by blast
qed

lemma pm_ok:
  assumes "fst (private_makeGraph b h tds ins outs initIns initOuts origin userQuery) = Inr g"
  shows "\<exists>pq rows. parserYacc b (or_empty userQuery) = Inr pq \<and>
     selectDimensions (registry b) origin (map_option str_of_tree pq) ins outs = Inr rows \<and>
     list_all2 (firstMatch (registry b) origin) (set_iter h initIns) (graphInitInputs g) \<and>
     makeTaskNodes b rows tds = Inr (nodes g)"
proof -
  obtain pq where pq: "parserYacc b (or_empty userQuery) = Inr pq"
    using assms by (cases "parserYacc b (or_empty userQuery)")
      (auto simp: pm_defs split: parserException.splits)
  obtain rows where rows: "selectDimensions (registry b) origin (map_option str_of_tree pq) ins outs = Inr rows"
    using assms pq
    by (cases "selectDimensions (registry b) origin (map_option str_of_tree pq) ins outs")
      (auto simp: pm_defs)
  obtain r ev where r: "resolveInitInputs (registry b) origin (set_iter h initIns) = (r, ev)"
    by (cases "resolveInitInputs (registry b) origin (set_iter h initIns)")
  obtain rs where rs: "r = Inr rs"
    using assms pq rows r by (cases r) (auto simp: pm_defs)
  obtain ns where ns: "makeTaskNodes b rows tds = Inr ns"
    using assms pq rows r rs
    by (cases "makeTaskNodes b rows tds") (auto simp: pm_defs)
  have g: "graphInitInputs g = rs" "nodes g = ns"
    using assms pq rows r rs ns by (auto simp: pm_defs)
  have "list_all2 (firstMatch (registry b) origin) (set_iter h initIns) rs"
    using resolve_ok [of "registry b" origin "set_iter h initIns" rs] r rs by simp
  with pq rows ns g show ?thesis by auto
qed

lemma makeGraph_ok:
  assumes "fst (makeGraph b h s pipeline origin userQuery) = Inr g"
  shows "\<exists>s' taskList tds ins outs initIns initOuts.
     loadAll (taskFactory b) s pipeline = Inr (s', taskList) \<and>
     collectAll (map (\<lambda>a. s' ! a) taskList) = Inr tds \<and>
     makeFullIODatasetTypes tds = Inr (ins, outs, initIns, initOuts) \<and>
     fst (private_makeGraph b h tds ins outs initIns initOuts origin userQuery) = Inr g"
  using assms by (auto simp: makeGraph_def split: sum.splits prod.splits)

text \<open>
  Claim C2, amended. Suppose the task classes load and the user query parses, and
  \<open>selectDimensions\<close> returns its rows. If some global init-input is found in none of
  its input collections, \<open>makeGraph\<close> raises \<open>GraphBuilderError\<close> naming the first
  such dataset type in the order in which the loop of line 288 iterates the set of the
  global init-inputs, \<open>set_iter h initIns\<close>: the order of the hash table, not the
  order of declaration. By then the parser and \<open>selectDimensions\<close> have been called,
  in this order, and the calls after them are \<open>find\<close> calls only. If \<open>makeGraph\<close>
  returns a graph, its init-inputs are, type by type in the order of that iteration,
  the dataset of the first input collection, in priority order, that has one.
\<close>

theorem init_input_resolution:
  assumes "loadAll (taskFactory b) s pipeline = Inr (s', taskList)"
    and "collectAll (map (\<lambda>a. s' ! a) taskList) = Inr tds"
    and "makeFullIODatasetTypes tds = Inr (ins, outs, initIns, initOuts)"
    and "parserYacc b (or_empty userQuery) = Inr pq"
    and "selectDimensions (registry b) origin (map_option str_of_tree pq) ins outs = Inr rows"
  shows "((\<exists>d\<in>set initIns. missing (registry b) origin d) \<longrightarrow>
       (\<exists>ds1 d' ds2 ev. set_iter h initIns = ds1 @ d' # ds2 \<and>
          list_all (\<lambda>x. \<not> missing (registry b) origin x) ds1 \<and> missing (registry b) origin d' \<and>
          list_all isFind ev \<and>
          makeGraph b h s pipeline origin userQuery =
            (Inl (GraphBuilderError (name d')),
             Parse (or_empty userQuery) # SelectDimensions (map_option str_of_tree pq) ins outs # ev,
             s'))) \<and>
     (\<forall>g. fst (makeGraph b h s pipeline origin userQuery) = Inr g \<longrightarrow>
        list_all2 (firstMatch (registry b) origin) (set_iter h initIns) (graphInitInputs g))"
proof (intro conjI impI allI)
  assume "\<exists>d\<in>set initIns. missing (registry b) origin d"
  from pm_missing [OF assms(4,5) this, of h tds initOuts]
  show "\<exists>ds1 d' ds2 ev. set_iter h initIns = ds1 @ d' # ds2 \<and>
          list_all (\<lambda>x. \<not> missing (registry b) origin x) ds1 \<and> missing (registry b) origin d' \<and>
          list_all isFind ev \<and>
          makeGraph b h s pipeline origin userQuery =
            (Inl (GraphBuilderError (name d')),
             Parse (or_empty userQuery) # SelectDimensions (map_option str_of_tree pq) ins outs # ev,
             s')"
    unfolding makeGraph_reaches [OF assms(1,2,3)] by fastforce
next
  fix g
  assume "fst (makeGraph b h s pipeline origin userQuery) = Inr g"
  then have "fst (private_makeGraph b h tds ins outs initIns initOuts origin userQuery) = Inr g"
    unfolding makeGraph_reaches [OF assms(1,2,3)] by simp
  from pm_ok [OF this] show "list_all2 (firstMatch (registry b) origin) (set_iter h initIns) (graphInitInputs g)"
    by blast
qed


section \<open>A pipeline of one task\<close>

text \<open>
  One task reads \<open>raw\<close> and writes \<open>cal\<close>, both over the dimensions \<open>v\<close> and \<open>d\<close>;
  its quanta are keyed on \<open>v\<close>.
\<close>

definition ex_raw :: datasetType where
  "ex_raw = \<lparr>name = ''raw'', dsDimensions = [''v'', ''d'']\<rparr>"

definition ex_calexp :: datasetType where
  "ex_calexp = \<lparr>name = ''cal'', dsDimensions = [''v'', ''d'']\<rparr>"

definition ex_class :: taskClass where
  "ex_class = \<lparr>getInputDatasetTypes = (\<lambda>c. Some [(''i'', ex_raw)]),
     getOutputDatasetTypes = (\<lambda>c. Some [(''o'', ex_calexp)]),
     getInitInputDatasetTypes = (\<lambda>c. None),
     getInitOutputDatasetTypes = (\<lambda>c. None)\<rparr>"

definition ex_config :: config where
  "ex_config = \<lparr>quantum_dimensions = [''v''], settings = []\<rparr>"

definition ex_store :: store where
  "ex_store =
     [\<lparr>label = ''t1'', taskName = ''T1'', taskClass = None, config = ex_config\<rparr>,
      \<lparr>label = ''t2'', taskName = ''p.T2'', taskClass = Some ex_class, config = ex_config\<rparr>]"

definition ex_factory :: taskFactory where
  "ex_factory = \<lparr>loadTaskClass = (\<lambda>n. Inr (ex_class, ''p.'' @ n))\<rparr>"

text \<open>
  Claim C8 at the two objects of \<open>ex_store\<close>: the first has no class and is copied
  to address 2, the second has its class and is returned as it is.
\<close>

theorem loadTaskClass_frame_witness:
  "0 < length ex_store \<and> taskClass (ex_store ! 0) = None \<and>
   loadTaskClass ex_factory (taskName (ex_store ! 0)) = Inr (ex_class, ''p.T1'') \<and>
   private_loadTaskClass ex_factory ex_store 0 =
     Inr (ex_store @ [(ex_store ! 0)\<lparr>taskClass := Some ex_class, taskName := ''p.T1''\<rparr>], 2) \<and>
   1 < length ex_store \<and> taskClass (ex_store ! 1) \<noteq> None \<and>
   private_loadTaskClass ex_factory ex_store 1 = Inr (ex_store, 1)"
proof -
  have l: "(1::nat) < length ex_store" by (simp add: ex_store_def)
  have l0: "(0::nat) < length ex_store" by (simp add: ex_store_def)
  have n0: "taskClass (ex_store ! 0) = None" by (simp add: ex_store_def)
  have n1: "taskClass (ex_store ! 1) \<noteq> None" by (simp add: ex_store_def)
  have ld: "loadTaskClass ex_factory (taskName (ex_store ! 0)) = Inr (ex_class, ''p.T1'')"
    by (simp add: ex_store_def ex_factory_def)
  from loadTaskClass_frame [OF l0, of ex_factory] n0 ld
  have "\<exists>s' a'. private_loadTaskClass ex_factory ex_store 0 = Inr (s', a') \<and> a' \<noteq> 0 \<and>
      a' = length ex_store \<and>
      s' ! a' = (ex_store ! 0)\<lparr>taskClass := Some ex_class, taskName := ''p.T1''\<rparr>"
    by blast
  moreover have "private_loadTaskClass ex_factory ex_store 0 =
     Inr (ex_store @ [(ex_store ! 0)\<lparr>taskClass := Some ex_class, taskName := ''p.T1''\<rparr>], 2)"
    by (simp add: private_loadTaskClass_def ex_store_def ex_factory_def)
  moreover from loadTaskClass_frame [OF l, of ex_factory] n1
  have "private_loadTaskClass ex_factory ex_store 1 = Inr (ex_store, 1)" by blast
  ultimately show ?thesis using l l0 n0 n1 ld by blast
qed


text \<open>
  A second task class also needs the init-input \<open>cfg\<close>. The registry returns the rows
  it is given; it finds \<open>cfg\<close> in the second input collection or, when \<open>found\<close> is
  false, nowhere. The parser returns no tree for the empty string, fails with a
  \<open>ParserYaccError\<close> on \<open>v = )\<close> and with an exception of another class on
  \<open>v = $\<close>. Sets are iterated with the dataset type \<open>bias\<close> last under
  \<open>ex_hash\<close> and first under \<open>ex_hashRev\<close>.
\<close>

definition ex_cfg :: datasetType where
  "ex_cfg = \<lparr>name = ''cfg'', dsDimensions = []\<rparr>"

definition ex_initClass :: taskClass where
  "ex_initClass = \<lparr>getInputDatasetTypes = (\<lambda>c. Some [(''i'', ex_raw)]),
     getOutputDatasetTypes = (\<lambda>c. Some [(''o'', ex_calexp)]),
     getInitInputDatasetTypes = (\<lambda>c. Some [(''c'', ex_cfg)]),
     getInitOutputDatasetTypes = (\<lambda>c. None)\<rparr>"

definition ex_initStore :: store where
  "ex_initStore =
     [\<lparr>label = ''t3'', taskName = ''p.T3'', taskClass = Some ex_initClass, config = ex_config\<rparr>]"

definition ex_origin :: originInfo where
  "ex_origin = \<lparr>getInputCollections = (\<lambda>n. [''c1'', ''c2'']), getOutputCollection = (\<lambda>n. ''out'')\<rparr>"

definition ex_parser :: "string \<Rightarrow> parserException + exprTree option" where
  "ex_parser s =
     (if s = [] then Inr None
      else if s = ''v = )'' then Inl (ParserYaccError ''syntax error'')
      else if s = ''v = $'' then Inl (OtherParserError ''illegal character'')
      else Inr (Some (Node s)))"

definition ex_hash :: "datasetType \<Rightarrow> nat" where
  "ex_hash d = (if name d = ''bias'' then 1 else 0)"

definition ex_hashRev :: "datasetType \<Rightarrow> nat" where
  "ex_hashRev d = (if name d = ''bias'' then 0 else 1)"

definition ex_ref :: "datasetType \<Rightarrow> int \<Rightarrow> int \<Rightarrow> nat option \<Rightarrow> datasetRef" where
  "ex_ref d v det i = \<lparr>datasetType = d, dataId = [(''v'', v), (''d'', det)], ref_id = i\<rparr>"

definition ex_row :: "int \<Rightarrow> int \<Rightarrow> int \<Rightarrow> nat option \<Rightarrow> dimensionRow" where
  "ex_row v x det i = \<lparr>rowDataId = [(''v'', v), (''d'', det), (''x'', x)],
     datasetRefs = [ex_raw \<mapsto> ex_ref ex_raw v det (Some 7),
       ex_calexp \<mapsto> ex_ref ex_calexp v det i]\<rparr>"

definition ex_cfgRef :: datasetRef where
  "ex_cfgRef = \<lparr>datasetType = ex_cfg, dataId = [], ref_id = Some 3\<rparr>"

definition ex_registry :: "dimensionRow list \<Rightarrow> bool \<Rightarrow> registry" where
  "ex_registry rows found = \<lparr>selectDimensions = (\<lambda>origin expr ins outs. Inr rows),
     findDataset = (\<lambda>c d. if found \<and> c = ''c2'' \<and> d = ex_cfg then Some ex_cfgRef else None),
     dimensions = [''v'' \<mapsto> [''v'']]\<rparr>"

definition ex_builder :: "bool \<Rightarrow> dimensionRow list \<Rightarrow> bool \<Rightarrow> graphBuilder" where
  "ex_builder skip rows found = \<lparr>taskFactory = ex_factory, registry = ex_registry rows found,
     skipExisting = skip, parserYacc = ex_parser\<rparr>"

definition ex_initTask :: taskDatasetTypes where
  "ex_initTask = \<lparr>taskDef = ex_initStore ! 0, inputs = [ex_raw], outputs = [ex_calexp],
     initInputs = [ex_cfg], initOutputs = []\<rparr>"

lemma ex_init_load:
  "loadAll (taskFactory (ex_builder skip rows found)) ex_initStore [0] = Inr (ex_initStore, [0])"
  by (simp add: ex_initStore_def private_loadTaskClass_def)

lemma ex_init_collect: "collectAll (map (\<lambda>a. ex_initStore ! a) [0]) = Inr [ex_initTask]"
  by (simp add: ex_initStore_def ex_initTask_def collectTaskIo_def ex_initClass_def ioTypes_def)

lemma ex_init_io: "makeFullIODatasetTypes [ex_initTask] = Inr ([ex_raw], [ex_calexp], [ex_cfg], [])"
  by (simp add: ex_initTask_def makeFullIODatasetTypes_def addTask_def emptyIoState_def set_add_def
      ex_raw_def ex_calexp_def ex_cfg_def)

lemma ex_missing: "missing (ex_registry rows False) ex_origin ex_cfg"
  by (simp add: missing_def ex_registry_def ex_origin_def)

definition ex_rows :: "dimensionRow list" where
  "ex_rows = [ex_row 1 0 10 None, ex_row 1 0 11 None]"

lemma ex_builder_sel:
  "taskFactory (ex_builder skip rows found) = ex_factory"
  "registry (ex_builder skip rows found) = ex_registry rows found"
  "skipExisting (ex_builder skip rows found) = skip"
  "parserYacc (ex_builder skip rows found) = ex_parser"
  by (simp_all add: ex_builder_def)

lemma ex_registry_sel:
  "selectDimensions (ex_registry rows found) origin expr ins outs = Inr rows"
  "findDataset (ex_registry rows found) c d =
     (if found \<and> c = ''c2'' \<and> d = ex_cfg then Some ex_cfgRef else None)"
  "dimensions (ex_registry rows found) = [''v'' \<mapsto> [''v'']]"
  by (simp_all add: ex_registry_def)

lemmas ex_defs = ex_parser_def ex_origin_def ex_factory_def
  ex_rows_def ex_row_def ex_ref_def ex_raw_def ex_calexp_def ex_cfg_def ex_cfgRef_def
  ex_config_def ex_initTask_def ex_initStore_def ex_initClass_def

lemmas run_defs = pm_defs or_empty_def makeTaskNode_def addRow_def getDefault_def
  dataRefKey_def flattenRefs_def exists_ref_def

lemma ex_init_nodes:
  "makeTaskNode (ex_builder True ex_rows found) ex_rows ex_initTask =
     Inr \<lparr>nodeTaskDef = ex_initStore ! 0,
           quanta = [\<lparr>predictedInputs = [ex_ref ex_raw 1 10 (Some 7), ex_ref ex_raw 1 11 (Some 7)],
                      quantumOutputs = [ex_ref ex_calexp 1 10 None, ex_ref ex_calexp 1 11 None]\<rparr>]\<rparr>"
  by (simp add: ex_builder_sel ex_registry_sel ex_defs run_defs)

lemma ex_init_run:
  "makeGraph (ex_builder skip rows found) h ex_initStore [0] ex_origin userQuery =
    (fst (private_makeGraph (ex_builder skip rows found) h [ex_initTask] [ex_raw] [ex_calexp] [ex_cfg] []
            ex_origin userQuery),
     snd (private_makeGraph (ex_builder skip rows found) h [ex_initTask] [ex_raw] [ex_calexp] [ex_cfg] []
            ex_origin userQuery), ex_initStore)"
  by (rule makeGraph_reaches [OF ex_init_load ex_init_collect ex_init_io])

lemma ex_collections: "getInputCollections ex_origin n = [''c1'', ''c2'']"
  by (simp add: ex_origin_def)

lemma ex_parser_simps:
  "ex_parser [] = Inr None" "ex_parser ''v = )'' = Inl (ParserYaccError ''syntax error'')"
  "ex_parser ''v = $'' = Inl (OtherParserError ''illegal character'')"
  "ex_parser ''v = 1'' = Inr (Some (Node ''v = 1''))"
  by (simp_all add: ex_parser_def)

lemma ex_init_graph:
  "makeGraph (ex_builder True ex_rows True) ex_hash ex_initStore [0] ex_origin None =
     (Inr \<lparr>nodes = [\<lparr>nodeTaskDef = ex_initStore ! 0,
           quanta = [\<lparr>predictedInputs = [ex_ref ex_raw 1 10 (Some 7), ex_ref ex_raw 1 11 (Some 7)],
                      quantumOutputs = [ex_ref ex_calexp 1 10 None, ex_ref ex_calexp 1 11 None]\<rparr>]\<rparr>],
        inputDatasetTypes = [ex_raw], outputDatasetTypes = [ex_calexp],
        graphInitInputs = [ex_cfgRef], graphInitOutputs = []\<rparr>,
      [Parse [], SelectDimensions None [ex_raw] [ex_calexp], Find ''c1'' ex_cfg, Find ''c2'' ex_cfg],
      ex_initStore)"
  unfolding ex_init_run
  by (simp add: pm_defs or_empty_def ex_builder_sel ex_registry_sel ex_init_nodes ex_collections
      ex_parser_simps set_iter_single)

text \<open>
  Claim C2, as stated, fails: when \<open>cfg\<close> is missing, \<open>GraphBuilderError\<close> is raised
  after \<open>selectDimensions\<close> has been called, not before.
\<close>

theorem init_input_order_counterexample:
  "makeGraph (ex_builder True ex_rows False) ex_hash ex_initStore [0] ex_origin None =
     (Inl (GraphBuilderError ''cfg''),
      [Parse [], SelectDimensions None [ex_raw] [ex_calexp], Find ''c1'' ex_cfg, Find ''c2'' ex_cfg],
      ex_initStore)"
  unfolding ex_init_run
  by (simp add: pm_defs or_empty_def ex_builder_sel ex_registry_sel ex_collections
      ex_parser_simps ex_cfg_def set_iter_single)

text \<open>
  A third task class needs two init-inputs, \<open>bias\<close> and \<open>flat\<close>, declared in this
  order; the registry has neither.
\<close>

definition ex_bias :: datasetType where
  "ex_bias = \<lparr>name = ''bias'', dsDimensions = []\<rparr>"

definition ex_flat :: datasetType where
  "ex_flat = \<lparr>name = ''flat'', dsDimensions = []\<rparr>"

definition ex_twoClass :: taskClass where
  "ex_twoClass = \<lparr>getInputDatasetTypes = (\<lambda>c. Some [(''i'', ex_raw)]),
     getOutputDatasetTypes = (\<lambda>c. Some [(''o'', ex_calexp)]),
     getInitInputDatasetTypes = (\<lambda>c. Some [(''b'', ex_bias), (''f'', ex_flat)]),
     getInitOutputDatasetTypes = (\<lambda>c. None)\<rparr>"

definition ex_twoStore :: store where
  "ex_twoStore =
     [\<lparr>label = ''t4'', taskName = ''p.T4'', taskClass = Some ex_twoClass, config = ex_config\<rparr>]"

definition ex_twoTask :: taskDatasetTypes where
  "ex_twoTask = \<lparr>taskDef = ex_twoStore ! 0, inputs = [ex_raw], outputs = [ex_calexp],
     initInputs = [ex_bias, ex_flat], initOutputs = []\<rparr>"

lemma ex_two_load:
  "loadAll (taskFactory (ex_builder skip rows found)) ex_twoStore [0] = Inr (ex_twoStore, [0])"
  by (simp add: ex_twoStore_def private_loadTaskClass_def)

lemma ex_two_collect: "collectAll (map (\<lambda>a. ex_twoStore ! a) [0]) = Inr [ex_twoTask]"
  by (simp add: ex_twoStore_def ex_twoTask_def collectTaskIo_def ex_twoClass_def ioTypes_def)

lemma ex_two_io:
  "makeFullIODatasetTypes [ex_twoTask] = Inr ([ex_raw], [ex_calexp], [ex_bias, ex_flat], [])"
  by (simp add: ex_twoTask_def makeFullIODatasetTypes_def addTask_def emptyIoState_def set_add_def
      ex_raw_def ex_calexp_def ex_bias_def ex_flat_def)

lemma ex_two_missing:
  "missing (ex_registry rows found) ex_origin ex_bias"
  "missing (ex_registry rows found) ex_origin ex_flat"
  by (simp_all add: missing_def ex_registry_def ex_origin_def ex_bias_def ex_flat_def ex_cfg_def)

lemma ex_two_iter:
  "set_iter ex_hash [ex_bias, ex_flat] = [ex_flat, ex_bias]"
  "set_iter ex_hashRev [ex_bias, ex_flat] = [ex_bias, ex_flat]"
  by (simp_all add: set_iter_def ex_hash_def ex_hashRev_def ex_bias_def ex_flat_def)

text \<open>
  Claim C2, amended, on the pipelines of this section. With \<open>bias\<close> and \<open>flat\<close>
  both missing, the error names \<open>flat\<close> when the set is iterated with \<open>bias\<close>
  last and \<open>bias\<close> when it is iterated with \<open>bias\<close> first; in both cases it
  follows the query. With \<open>cfg\<close> in the second collection the graph records that
  dataset.
\<close>

theorem init_input_resolution_witness:
  "loadAll (taskFactory (ex_builder True ex_rows False)) ex_twoStore [0] = Inr (ex_twoStore, [0]) \<and>
   collectAll (map (\<lambda>a. ex_twoStore ! a) [0]) = Inr [ex_twoTask] \<and>
   makeFullIODatasetTypes [ex_twoTask] = Inr ([ex_raw], [ex_calexp], [ex_bias, ex_flat], []) \<and>
   parserYacc (ex_builder True ex_rows False) (or_empty None) = Inr None \<and>
   selectDimensions (registry (ex_builder True ex_rows False)) ex_origin
     (map_option str_of_tree None) [ex_raw] [ex_calexp] = Inr ex_rows \<and>
   missing (registry (ex_builder True ex_rows False)) ex_origin ex_bias \<and>
   missing (registry (ex_builder True ex_rows False)) ex_origin ex_flat \<and>
   set_iter ex_hash [ex_bias, ex_flat] = [ex_flat, ex_bias] \<and>
   (\<exists>ev. makeGraph (ex_builder True ex_rows False) ex_hash ex_twoStore [0] ex_origin None =
      (Inl (GraphBuilderError ''flat''),
       Parse [] # SelectDimensions None [ex_raw] [ex_calexp] # ev, ex_twoStore)) \<and>
   set_iter ex_hashRev [ex_bias, ex_flat] = [ex_bias, ex_flat] \<and>
   (\<exists>ev. makeGraph (ex_builder True ex_rows False) ex_hashRev ex_twoStore [0] ex_origin None =
      (Inl (GraphBuilderError ''bias''),
       Parse [] # SelectDimensions None [ex_raw] [ex_calexp] # ev, ex_twoStore)) \<and>
   fst (makeGraph (ex_builder True ex_rows True) ex_hash ex_initStore [0] ex_origin None) =
     Inr \<lparr>nodes = [\<lparr>nodeTaskDef = ex_initStore ! 0,
           quanta = [\<lparr>predictedInputs = [ex_ref ex_raw 1 10 (Some 7), ex_ref ex_raw 1 11 (Some 7)],
                      quantumOutputs = [ex_ref ex_calexp 1 10 None, ex_ref ex_calexp 1 11 None]\<rparr>]\<rparr>],
        inputDatasetTypes = [ex_raw], outputDatasetTypes = [ex_calexp],
        graphInitInputs = [ex_cfgRef], graphInitOutputs = []\<rparr> \<and>
   firstMatch (registry (ex_builder True ex_rows True)) ex_origin ex_cfg ex_cfgRef"
proof -
  let ?b = "ex_builder True ex_rows False" and ?b' = "ex_builder True ex_rows True"
  have p: "parserYacc ?b (or_empty None) = Inr None" "parserYacc ?b' (or_empty None) = Inr None"
    by (simp_all add: ex_builder_sel or_empty_def ex_parser_simps)
  have q: "selectDimensions (registry ?b) ex_origin (map_option str_of_tree None) [ex_raw] [ex_calexp]
      = Inr ex_rows"
    "selectDimensions (registry ?b') ex_origin (map_option str_of_tree None) [ex_raw] [ex_calexp]
      = Inr ex_rows"
    by (simp_all add: ex_builder_sel ex_registry_sel)
  have m: "missing (registry ?b) ex_origin ex_bias" "missing (registry ?b) ex_origin ex_flat"
    by (simp_all add: ex_builder_sel ex_two_missing)
  then have e: "\<exists>d\<in>set [ex_bias, ex_flat]. missing (registry ?b) ex_origin d" by simp
  note t = init_input_resolution [OF ex_two_load ex_two_collect ex_two_io p(1) q(1)]
  note t' = init_input_resolution [OF ex_init_load ex_init_collect ex_init_io p(2) q(2)]
  from t [of ex_hash] e obtain ds1 d' ds2 ev where
    1: "set_iter ex_hash [ex_bias, ex_flat] = ds1 @ d' # ds2"
    and 2: "list_all (\<lambda>x. \<not> missing (registry ?b) ex_origin x) ds1"
    and 3: "makeGraph ?b ex_hash ex_twoStore [0] ex_origin None =
            (Inl (GraphBuilderError (name d')),
             Parse (or_empty None) # SelectDimensions (map_option str_of_tree None) [ex_raw] [ex_calexp] # ev,
             ex_twoStore)"
    by blast
  from 1 2 m have "d' = ex_flat" unfolding ex_two_iter by (cases ds1) auto
  with 3 have a: "\<exists>ev. makeGraph ?b ex_hash ex_twoStore [0] ex_origin None =
      (Inl (GraphBuilderError ''flat''),
       Parse [] # SelectDimensions None [ex_raw] [ex_calexp] # ev, ex_twoStore)"
    by (simp add: or_empty_def ex_flat_def)
  from t [of ex_hashRev] e obtain ds1 d' ds2 ev where
    1: "set_iter ex_hashRev [ex_bias, ex_flat] = ds1 @ d' # ds2"
    and 2: "list_all (\<lambda>x. \<not> missing (registry ?b) ex_origin x) ds1"
    and 3: "makeGraph ?b ex_hashRev ex_twoStore [0] ex_origin None =
            (Inl (GraphBuilderError (name d')),
             Parse (or_empty None) # SelectDimensions (map_option str_of_tree None) [ex_raw] [ex_calexp] # ev,
             ex_twoStore)"
    by blast
  from 1 2 m have "d' = ex_bias" unfolding ex_two_iter by (cases ds1) auto
  with 3 have a': "\<exists>ev. makeGraph ?b ex_hashRev ex_twoStore [0] ex_origin None =
      (Inl (GraphBuilderError ''bias''),
       Parse [] # SelectDimensions None [ex_raw] [ex_calexp] # ev, ex_twoStore)"
    by (simp add: or_empty_def ex_bias_def)
  have g: "fst (makeGraph ?b' ex_hash ex_initStore [0] ex_origin None) =
     Inr \<lparr>nodes = [\<lparr>nodeTaskDef = ex_initStore ! 0,
           quanta = [\<lparr>predictedInputs = [ex_ref ex_raw 1 10 (Some 7), ex_ref ex_raw 1 11 (Some 7)],
                      quantumOutputs = [ex_ref ex_calexp 1 10 None, ex_ref ex_calexp 1 11 None]\<rparr>]\<rparr>],
        inputDatasetTypes = [ex_raw], outputDatasetTypes = [ex_calexp],
        graphInitInputs = [ex_cfgRef], graphInitOutputs = []\<rparr>"
    by (simp add: ex_init_graph)
  from t' [of ex_hash] g have "firstMatch (registry ?b') ex_origin ex_cfg ex_cfgRef"
    by (simp add: set_iter_single)
  with ex_two_load [of True ex_rows False] ex_two_collect ex_two_io p(1) q(1) m ex_two_iter a a' g
  show ?thesis by blast
qed



section \<open>The tables of one task\<close>

text \<open>
  The input table and the output table are filled by the same steps, each from its
  own list of dataset types; \<open>addSide\<close> is the step on one table.
\<close>

definition addSide ::
  "datasetType list \<Rightarrow> string list \<Rightarrow> dimensionRow \<Rightarrow> quantaMap \<Rightarrow> error + quantaMap" where
  "addSide ds qlinks row tq =
     (case makeQkey row qlinks of
        Inl e \<Rightarrow> Inl e
      | Inr qkey \<Rightarrow>
          (case addRefs row ds (getDefault tq qkey) of
             Inl e \<Rightarrow> Inl e
           | Inr q \<Rightarrow> Inr (AList.update qkey q tq)))"

fun addSides ::
  "datasetType list \<Rightarrow> string list \<Rightarrow> dimensionRow list \<Rightarrow> quantaMap \<Rightarrow> error + quantaMap" where
  "addSides ds qlinks [] tq = Inr tq"
| "addSides ds qlinks (row # rows) tq =
     (case addSide ds qlinks row tq of
        Inl e \<Rightarrow> Inl e
      | Inr tq' \<Rightarrow> addSides ds qlinks rows tq')"

lemma addRow_sides:
  "addRow td ql r tq = Inr tq' \<longleftrightarrow>
     addSide (inputs td) ql r (fst tq) = Inr (fst tq') \<and>
     addSide (outputs td) ql r (snd tq) = Inr (snd tq')"
  by (cases tq') (auto simp: addRow_def addSide_def split: sum.splits)

lemma addRows_sides:
  "addRows td ql rows tq = Inr tq' \<longleftrightarrow>
     addSides (inputs td) ql rows (fst tq) = Inr (fst tq') \<and>
     addSides (outputs td) ql rows (snd tq) = Inr (snd tq')"
proof (induction rows arbitrary: tq)
  case Nil
  show ?case by (auto simp: prod_eq_iff)
next
  case (Cons r rows)
  show ?case
  proof (cases "addRow td ql r tq")
    case (Inl e)
    then have "\<not> (\<exists>a b. addSide (inputs td) ql r (fst tq) = Inr a \<and>
        addSide (outputs td) ql r (snd tq) = Inr b)"
      using addRow_sides [of td ql r tq] by (metis fst_conv snd_conv sum.distinct(1))
    with Inl show ?thesis by (auto split: sum.splits)
  next
    case (Inr t)
    then have "addSide (inputs td) ql r (fst tq) = Inr (fst t)"
      "addSide (outputs td) ql r (snd tq) = Inr (snd t)"
      using addRow_sides [of td ql r tq t] by simp_all
    with Inr Cons.IH [of t] show ?thesis by simp
  qed
qed

text \<open>What a table holds: for a grouping key and a dataset type, the map from keys to references.\<close>

definition absT :: "typeMap \<Rightarrow> datasetType \<Rightarrow> dataId \<rightharpoonup> datasetRef" where
  "absT q d = map_of (getDefault q d)"

definition absQ :: "quantaMap \<Rightarrow> dataId \<Rightarrow> datasetType \<Rightarrow> dataId \<rightharpoonup> datasetRef" where
  "absQ tq k = absT (getDefault tq k)"

definition wfT :: "typeMap \<Rightarrow> bool" where
  "wfT q \<longleftrightarrow> distinct (map fst q) \<and> list_all (\<lambda>p. distinct (map fst (snd p))) q"

definition wfQ :: "quantaMap \<Rightarrow> bool" where
  "wfQ tq \<longleftrightarrow> distinct (map fst tq) \<and> list_all (\<lambda>p. wfT (snd p)) tq"

lemma getDefault_update:
  "getDefault (AList.update k v m) k' = (if k' = k then v else getDefault m k')"
  by (simp add: getDefault_def update_conv')

lemma getDefault_Nil: "getDefault [] k = []"
  by (simp add: getDefault_def)

lemma getDefault_in: "distinct (map fst m) \<Longrightarrow> (k, v) \<in> set m \<Longrightarrow> getDefault m k = v"
  by (simp add: getDefault_def)

lemma getDefault_cases: "getDefault m k = [] \<or> (k, getDefault m k) \<in> set m"
  by (auto simp: getDefault_def split: option.splits dest: map_of_SomeD)

lemma list_all_update:
  "list_all P m \<Longrightarrow> P (k, v) \<Longrightarrow> list_all P (AList.update k v m)"
  by (induction m) auto

lemma wfT_getDefault: "wfT q \<Longrightarrow> distinct (map fst (getDefault q d))"
  using getDefault_cases [of q d] by (auto simp: wfT_def list_all_iff)

lemma wfT_Nil: "wfT []"
  by (simp add: wfT_def)

lemma wfQ_getDefault: "wfQ tq \<Longrightarrow> wfT (getDefault tq k)"
  using getDefault_cases [of tq k] by (force simp: wfQ_def list_all_iff wfT_Nil)

lemma wfT_update:
  "wfT q \<Longrightarrow> distinct (map fst m) \<Longrightarrow> wfT (AList.update d m q)"
  by (simp add: wfT_def distinct_update list_all_update)

lemma wfQ_update: "wfQ tq \<Longrightarrow> wfT q \<Longrightarrow> wfQ (AList.update k q tq)"
  by (simp add: wfQ_def distinct_update list_all_update)

lemma addRefs_wf: "addRefs row ds q = Inr q' \<Longrightarrow> wfT q \<Longrightarrow> wfT q'"
proof (induction ds arbitrary: q)
  case Nil
  then show ?case by simp
next
  case (Cons d ds)
  from Cons.prems obtain ref where ref: "datasetRefs row d = Some ref"
    and r: "addRefs row ds (AList.update d (AList.update (dataRefKey ref) ref (getDefault q d)) q) = Inr q'"
    by (auto simp: Let_def getDefault_def split: option.splits)
  have "wfT (AList.update d (AList.update (dataRefKey ref) ref (getDefault q d)) q)"
    using Cons.prems(2) by (simp add: wfT_update distinct_update wfT_getDefault)
  with Cons.IH [OF r] show ?case .
qed

lemma addRefs_ok:
  "(\<exists>q'. addRefs row ds q = Inr q') \<longleftrightarrow> list_all (\<lambda>d. datasetRefs row d \<noteq> None) ds"
  by (induction ds arbitrary: q) (auto simp: Let_def split: option.splits)

lemma addRefs_keys:
  "addRefs row ds q = Inr q' \<Longrightarrow> fst ` set q' = fst ` set q \<union> set ds"
proof (induction ds arbitrary: q)
  case Nil
  then show ?case by simp
next
  case (Cons d ds)
  from Cons.prems obtain ref where ref: "datasetRefs row d = Some ref"
    and r: "addRefs row ds (AList.update d (AList.update (dataRefKey ref) ref (getDefault q d)) q) = Inr q'"
    by (auto simp: Let_def getDefault_def split: option.splits)
  from Cons.IH [OF r] show ?case by (auto simp: dom_update)
qed

lemma addRefs_abs:
  "addRefs row ds q = Inr q' \<Longrightarrow>
   absT q' d = (if d \<in> set ds
      then (absT q d)(dataRefKey (the (datasetRefs row d)) \<mapsto> the (datasetRefs row d))
      else absT q d)"
proof (induction ds arbitrary: q)
  case Nil
  then show ?case by simp
next
  case (Cons x ds)
  from Cons.prems obtain ref where ref: "datasetRefs row x = Some ref"
    and r: "addRefs row ds (AList.update x (AList.update (dataRefKey ref) ref (getDefault q x)) q) = Inr q'"
    by (auto simp: Let_def getDefault_def split: option.splits)
  let ?q1 = "AList.update x (AList.update (dataRefKey ref) ref (getDefault q x)) q"
  have q1: "absT ?q1 d = (if d = x then (absT q x)(dataRefKey ref \<mapsto> ref) else absT q d)"
    by (simp add: absT_def getDefault_update update_conv')
  from Cons.IH [OF r] q1 ref show ?case by auto
qed


definition rowOk :: "datasetType list \<Rightarrow> string list \<Rightarrow> dimensionRow \<Rightarrow> bool" where
  "rowOk ds ql r \<longleftrightarrow> (\<exists>k. makeQkey r ql = Inr k) \<and> list_all (\<lambda>d. datasetRefs r d \<noteq> None) ds"

lemma addSide_ok: "(\<exists>tq'. addSide ds ql r tq = Inr tq') \<longleftrightarrow> rowOk ds ql r"
proof (cases "makeQkey r ql")
  case (Inl e)
  then show ?thesis by (simp add: addSide_def rowOk_def)
next
  case (Inr k)
  show ?thesis using addRefs_ok [of r ds "getDefault tq k"] Inr
    by (auto simp: addSide_def rowOk_def split: sum.splits)
qed

lemma addSide_step:
  assumes "addSide ds ql r tq = Inr tq'"
  shows "\<exists>k. makeQkey r ql = Inr k \<and>
     map fst tq' = (if k \<in> set (map fst tq) then map fst tq else map fst tq @ [k]) \<and>
     (\<forall>k' d. absQ tq' k' d =
        (if k' = k \<and> d \<in> set ds
         then (absQ tq k d)(dataRefKey (the (datasetRefs r d)) \<mapsto> the (datasetRefs r d))
         else absQ tq k' d)) \<and>
     (wfQ tq \<longrightarrow> wfQ tq')"
proof -
  from assms obtain k q where k: "makeQkey r ql = Inr k"
    and q: "addRefs r ds (getDefault tq k) = Inr q" and tq': "tq' = AList.update k q tq"
    by (auto simp: addSide_def split: sum.splits)
  have "map fst tq' = (if k \<in> set (map fst tq) then map fst tq else map fst tq @ [k])"
    unfolding tq' by (rule update_keys)
  moreover have "absQ tq' k' d =
        (if k' = k \<and> d \<in> set ds
         then (absQ tq k d)(dataRefKey (the (datasetRefs r d)) \<mapsto> the (datasetRefs r d))
         else absQ tq k' d)" for k' d
    using addRefs_abs [OF q, of d] by (simp add: absQ_def tq' getDefault_update)
  moreover have "wfQ tq'" if "wfQ tq"
    unfolding tq' using that addRefs_wf [OF q] by (simp add: wfQ_update wfQ_getDefault)
  ultimately show ?thesis using k by blast
qed

lemma addSides_ok: "(\<exists>tq'. addSides ds ql rows tq = Inr tq') \<longleftrightarrow> list_all (rowOk ds ql) rows"
proof (induction rows arbitrary: tq)
  case Nil
  show ?case by simp
next
  case (Cons r rows)
  show ?case
  proof (cases "addSide ds ql r tq")
    case (Inl e)
    with addSide_ok [of ds ql r tq] show ?thesis by simp
  next
    case (Inr t)
    with addSide_ok [of ds ql r tq] Cons.IH [of t] show ?thesis by auto
  qed
qed

lemma addSides_wf: "addSides ds ql rows tq = Inr tq' \<Longrightarrow> wfQ tq \<Longrightarrow> wfQ tq'"
proof (induction rows arbitrary: tq)
  case Nil
  then show ?case by simp
next
  case (Cons r rows)
  from Cons.prems(1) obtain t where t: "addSide ds ql r tq = Inr t"
    and r: "addSides ds ql rows t = Inr tq'"
    by (auto split: sum.splits)
  from addSide_step [OF t] Cons.prems(2) have "wfQ t" by blast
  with Cons.IH [OF r] show ?case .
qed

lemma addSides_keys:
  "addSides ds ql rows tq = Inr tq' \<Longrightarrow>
     set (map fst tq') = set (map fst tq) \<union> {k. \<exists>r\<in>set rows. makeQkey r ql = Inr k}"
proof (induction rows arbitrary: tq)
  case Nil
  then show ?case by simp
next
  case (Cons r rows)
  from Cons.prems(1) obtain t where t: "addSide ds ql r tq = Inr t"
    and r: "addSides ds ql rows t = Inr tq'"
    by (auto split: sum.splits)
  from addSide_step [OF t] obtain k where k: "makeQkey r ql = Inr k"
    and m: "map fst t = (if k \<in> set (map fst tq) then map fst tq else map fst tq @ [k])"
    by blast
  from m have "set (map fst t) = insert k (set (map fst tq))" by (auto split: if_splits)
  with Cons.IH [OF r] k show ?case by auto
qed

lemma addSides_keys_eq:
  "addSides ds ql rows tq = Inr tq' \<Longrightarrow> addSides ds' ql rows tp = Inr tp' \<Longrightarrow>
     map fst tq = map fst tp \<Longrightarrow> map fst tq' = map fst tp'"
proof (induction rows arbitrary: tq tp)
  case Nil
  then show ?case by simp
next
  case (Cons r rows)
  from Cons.prems(1) obtain t where t: "addSide ds ql r tq = Inr t"
    and r: "addSides ds ql rows t = Inr tq'"
    by (auto split: sum.splits)
  from Cons.prems(2) obtain u where u: "addSide ds' ql r tp = Inr u"
    and r': "addSides ds' ql rows u = Inr tp'"
    by (auto split: sum.splits)
  from addSide_step [OF t] addSide_step [OF u] Cons.prems(3) have "map fst t = map fst u"
    by auto
  from Cons.IH [OF r r' this] show ?case .
qed

text \<open>The references that the rows of a group hold for a dataset type.\<close>

definition groupRefs ::
  "datasetType list \<Rightarrow> string list \<Rightarrow> dimensionRow list \<Rightarrow> dataId \<Rightarrow> datasetType \<Rightarrow> datasetRef set" where
  "groupRefs ds ql rows k d =
     {ref. d \<in> set ds \<and> (\<exists>r\<in>set rows. makeQkey r ql = Inr k \<and> datasetRefs r d = Some ref)}"

lemma groupRefs_Nil: "groupRefs ds ql [] k d = {}"
  by (simp add: groupRefs_def)

lemma groupRefs_Cons:
  "groupRefs ds ql (r # rows) k d =
     (if makeQkey r ql = Inr k \<and> d \<in> set ds then {ref. datasetRefs r d = Some ref} else {})
     \<union> groupRefs ds ql rows k d"
  by (auto simp: groupRefs_def)

lemma addSides_dom:
  "addSides ds ql rows tq = Inr tq' \<Longrightarrow>
     dom (absQ tq' k d) = dom (absQ tq k d) \<union> dataRefKey ` groupRefs ds ql rows k d"
proof (induction rows arbitrary: tq)
  case Nil
  then show ?case by (simp add: groupRefs_Nil)
next
  case (Cons r rows)
  from Cons.prems(1) obtain t where t: "addSide ds ql r tq = Inr t"
    and r: "addSides ds ql rows t = Inr tq'"
    by (auto split: sum.splits)
  from addSide_ok [of ds ql r tq] t have ok: "rowOk ds ql r" by auto
  from addSide_step [OF t] obtain k0 where k0: "makeQkey r ql = Inr k0"
    and a: "\<And>k' d. absQ t k' d =
        (if k' = k0 \<and> d \<in> set ds
         then (absQ tq k0 d)(dataRefKey (the (datasetRefs r d)) \<mapsto> the (datasetRefs r d))
         else absQ tq k' d)"
    by blast
  have "dom (absQ t k d) = dom (absQ tq k d) \<union>
      dataRefKey ` (if makeQkey r ql = Inr k \<and> d \<in> set ds then {ref. datasetRefs r d = Some ref} else {})"
  proof (cases "k = k0 \<and> d \<in> set ds")
    case True
    with ok obtain ref where "datasetRefs r d = Some ref"
      by (auto simp: rowOk_def list_all_iff)
    with True k0 a [of k d] show ?thesis by auto
  next
    case False
    with k0 a [of k d] show ?thesis by auto
  qed
  with Cons.IH [OF r, of] show ?case by (auto simp: groupRefs_Cons)
qed

lemma addSides_val:
  "addSides ds ql rows tq = Inr tq' \<Longrightarrow> absQ tq' k d dk = Some ref \<Longrightarrow>
     absQ tq k d dk = Some ref \<or> (dataRefKey ref = dk \<and> ref \<in> groupRefs ds ql rows k d)"
proof (induction rows arbitrary: tq)
  case Nil
  then show ?case by simp
next
  case (Cons r rows)
  from Cons.prems(1) obtain t where t: "addSide ds ql r tq = Inr t"
    and r: "addSides ds ql rows t = Inr tq'"
    by (auto split: sum.splits)
  from addSide_ok [of ds ql r tq] t have ok: "rowOk ds ql r" by auto
  from addSide_step [OF t] obtain k0 where k0: "makeQkey r ql = Inr k0"
    and a: "\<And>k' d. absQ t k' d =
        (if k' = k0 \<and> d \<in> set ds
         then (absQ tq k0 d)(dataRefKey (the (datasetRefs r d)) \<mapsto> the (datasetRefs r d))
         else absQ tq k' d)"
    by blast
  from Cons.IH [OF r Cons.prems(2)]
  consider "absQ t k d dk = Some ref" | "dataRefKey ref = dk \<and> ref \<in> groupRefs ds ql rows k d"
    by blast
  then show ?case
  proof cases
    case 1
    show ?thesis
    proof (cases "k = k0 \<and> d \<in> set ds")
      case True
      with ok obtain ref' where ref': "datasetRefs r d = Some ref'"
        by (auto simp: rowOk_def list_all_iff)
      with True k0 a [of k d] 1 show ?thesis
        by (auto simp: groupRefs_Cons split: if_splits)
    next
      case False
      with a [of k d] 1 show ?thesis by auto
    qed
  next
    case 2
    then show ?thesis by (auto simp: groupRefs_Cons)
  qed
qed

lemma absQ_Nil: "absQ [] k d = Map.empty"
  by (simp add: absQ_def absT_def getDefault_Nil)

lemma wfQ_Nil: "wfQ []"
  by (simp add: wfQ_def)


section \<open>The quanta of one task\<close>

text \<open>The references of a grouping key in a table, flattened as line 340 does.\<close>

definition refsOf :: "quantaMap \<Rightarrow> dataId \<Rightarrow> datasetRef list" where
  "refsOf tq k = flattenRefs (getDefault tq k)"

definition mkQuantum :: "quantaMap \<Rightarrow> dataId \<times> typeMap \<Rightarrow> quantum" where
  "mkQuantum tqo p = \<lparr>predictedInputs = flattenRefs (snd p), quantumOutputs = refsOf tqo (fst p)\<rparr>"

definition skipped :: "bool \<Rightarrow> datasetRef list \<Rightarrow> bool" where
  "skipped skip outs \<longleftrightarrow> skip \<and> list_all exists_ref outs"

definition conflicting :: "bool \<Rightarrow> datasetRef list \<Rightarrow> bool" where
  "conflicting skip outs \<longleftrightarrow> \<not> skipped skip outs \<and> list_ex exists_ref outs"

lemma buildQuanta_find:
  assumes "list_all (\<lambda>p. map_of tqo (fst p) \<noteq> None) tqi"
  shows "buildQuanta skip tn tqo tqi =
     (case find (\<lambda>p. conflicting skip (refsOf tqo (fst p))) tqi of
        Some p \<Rightarrow> Inl (OutputExistsError tn (refsOf tqo (fst p)))
      | None \<Rightarrow> Inr (map (mkQuantum tqo) (filter (\<lambda>p. \<not> skipped skip (refsOf tqo (fst p))) tqi)))"
  using assms
proof (induction tqi)
  case Nil
  show ?case by simp
next
  case (Cons p tqi)
  obtain k qi where p: "p = (k, qi)" by (cases p)
  from Cons.prems p obtain qo where qo: "map_of tqo k = Some qo" by auto
  then have r: "refsOf tqo k = flattenRefs qo" by (simp add: refsOf_def getDefault_def)
  from Cons.prems have "list_all (\<lambda>p. map_of tqo (fst p) \<noteq> None) tqi" by simp
  note IH = Cons.IH [OF this]
  show ?case
  proof (cases "skip \<and> list_all exists_ref (flattenRefs qo)")
    case True
    then have "buildQuanta skip tn tqo (p # tqi) = buildQuanta skip tn tqo tqi"
      unfolding p using qo by (simp add: Let_def)
    moreover from True r have "skipped skip (refsOf tqo (fst p))" "\<not> conflicting skip (refsOf tqo (fst p))"
      by (simp_all add: p skipped_def conflicting_def)
    ultimately show ?thesis using IH by (simp split: option.splits)
  next
    case False
    then have ns: "\<not> skipped skip (refsOf tqo (fst p))" using r by (simp add: p skipped_def)
    show ?thesis
    proof (cases "list_ex exists_ref (flattenRefs qo)")
      case True
      with False have "buildQuanta skip tn tqo (p # tqi) = Inl (OutputExistsError tn (flattenRefs qo))"
        unfolding p using qo by (auto simp: Let_def)
      moreover from True ns r have "conflicting skip (refsOf tqo (fst p))"
        by (simp add: p conflicting_def)
      ultimately show ?thesis using r by (simp add: p split: option.splits)
    next
      case nex: False
      with False have "buildQuanta skip tn tqo (p # tqi) =
          (case buildQuanta skip tn tqo tqi of Inl e \<Rightarrow> Inl e
           | Inr qs \<Rightarrow> Inr (mkQuantum tqo p # qs))"
        unfolding p using qo r by (auto simp: Let_def mkQuantum_def split: sum.splits)
      moreover from nex r have "\<not> conflicting skip (refsOf tqo (fst p))"
        by (simp add: p conflicting_def)
      ultimately show ?thesis using IH ns by (simp split: option.splits sum.splits)
    qed
  qed
qed

lemma buildQuanta_fresh:
  "buildQuanta skip tn tqo tqi = Inr qs \<Longrightarrow>
     list_all (\<lambda>q. list_all (\<lambda>r. ref_id r = None) (quantumOutputs q)) qs"
proof (induction tqi arbitrary: qs)
  case Nil
  then show ?case by simp
next
  case (Cons p tqi)
  obtain k qi where p: "p = (k, qi)" by (cases p)
  from Cons.prems p obtain qo where qo: "map_of tqo k = Some qo"
    by (auto split: option.splits)
  show ?case
  proof (cases "skip \<and> list_all exists_ref (flattenRefs qo)")
    case True
    with Cons.prems p qo have "buildQuanta skip tn tqo tqi = Inr qs" by (simp add: Let_def)
    then show ?thesis by (rule Cons.IH)
  next
    case False
    with Cons.prems p qo obtain qs' where n: "\<not> list_ex exists_ref (flattenRefs qo)"
      and b: "buildQuanta skip tn tqo tqi = Inr qs'"
      and q: "qs = \<lparr>predictedInputs = flattenRefs qi, quantumOutputs = flattenRefs qo\<rparr> # qs'"
      by (auto simp: Let_def split: if_splits sum.splits)
    from n have "list_all (\<lambda>r. ref_id r = None) (flattenRefs qo)"
      by (auto simp: list_all_iff list_ex_iff exists_ref_def)
    with Cons.IH [OF b] q show ?thesis by simp
  qed
qed

lemma makeTaskNodes_all2:
  "makeTaskNodes b rows tds = Inr ns \<Longrightarrow>
     list_all2 (\<lambda>td n. makeTaskNode b rows td = Inr n) tds ns"
  by (induction tds arbitrary: ns) (auto split: sum.splits)

lemma makeTaskNodes_fail:
  "makeTaskNode b rows td = Inl e \<Longrightarrow> td \<in> set tds \<Longrightarrow> \<exists>e'. makeTaskNodes b rows tds = Inl e'"
  by (induction tds) (auto split: sum.splits)

lemma makeTaskNode_fresh:
  "makeTaskNode b rows td = Inr n \<Longrightarrow>
     list_all (\<lambda>q. list_all (\<lambda>r. ref_id r = None) (quantumOutputs q)) (quanta n)"
  by (auto simp: makeTaskNode_def split: sum.splits dest: buildQuanta_fresh)

lemma addRows_tables:
  assumes "addRows td ql rows ([], []) = Inr (tqi, tqo)"
  shows "addSides (inputs td) ql rows [] = Inr tqi" "addSides (outputs td) ql rows [] = Inr tqo"
    "map fst tqi = map fst tqo" "wfQ tqi" "wfQ tqo"
    "set (map fst tqi) = {k. \<exists>r\<in>set rows. makeQkey r ql = Inr k}"
proof -
  from assms show i: "addSides (inputs td) ql rows [] = Inr tqi"
    and o: "addSides (outputs td) ql rows [] = Inr tqo"
    using addRows_sides [of td ql rows "([], [])" "(tqi, tqo)"] by simp_all
  from addSides_keys_eq [OF i o] show "map fst tqi = map fst tqo" by simp
  from addSides_wf [OF i] addSides_wf [OF o] show "wfQ tqi" "wfQ tqo" by (simp_all add: wfQ_Nil)
  from addSides_keys [OF i] show "set (map fst tqi) = {k. \<exists>r\<in>set rows. makeQkey r ql = Inr k}"
    by simp
qed

lemma tables_lookup:
  assumes "map fst tqi = map fst tqo"
  shows "list_all (\<lambda>p. map_of tqo (fst p) \<noteq> None) tqi"
proof -
  have "map_of tqo (fst p) \<noteq> None" if "p \<in> set tqi" for p
  proof -
    from that have "fst p \<in> set (map fst tqi)" by simp
    with assms have "fst p \<in> fst ` set tqo" by simp
    then show ?thesis by (simp add: map_of_eq_None_iff)
  qed
  then show ?thesis by (simp add: list_all_iff)
qed

lemma makeTaskNode_find:
  assumes "quantumLinks (dimensions (registry b)) (quantum_dimensions (config (taskDef td))) = Inr ql"
    and "addRows td ql rows ([], []) = Inr (tqi, tqo)"
  shows "makeTaskNode b rows td =
     (case find (\<lambda>p. conflicting (skipExisting b) (refsOf tqo (fst p))) tqi of
        Some p \<Rightarrow> Inl (OutputExistsError (taskName (taskDef td)) (refsOf tqo (fst p)))
      | None \<Rightarrow> Inr \<lparr>nodeTaskDef = taskDef td,
          quanta = map (mkQuantum tqo)
            (filter (\<lambda>p. \<not> skipped (skipExisting b) (refsOf tqo (fst p))) tqi)\<rparr>)"
proof -
  have "list_all (\<lambda>p. map_of tqo (fst p) \<noteq> None) tqi"
    using addRows_tables(3) [OF assms(2)] by (rule tables_lookup)
  from buildQuanta_find [OF this, of "skipExisting b" "taskName (taskDef td)"] assms
  show ?thesis by (simp add: makeTaskNode_def split: option.splits)
qed


lemma set_flattenRefs: "wfT q \<Longrightarrow> set (flattenRefs q) = (\<Union>d. ran (absT q d))"
proof (intro set_eqI iffI)
  fix ref
  assume wf: "wfT q" and "ref \<in> set (flattenRefs q)"
  then obtain d m where dm: "(d, m) \<in> set q" and ref: "ref \<in> snd ` set m"
    by (fastforce simp: flattenRefs_def)
  from wf dm have g: "getDefault q d = m" and dist: "distinct (map fst m)"
    by (auto simp: wfT_def getDefault_in list_all_iff)
  from ref dist have "ref \<in> ran (absT q d)" by (simp add: absT_def g ran_distinct)
  then show "ref \<in> (\<Union>d. ran (absT q d))" by blast
next
  fix ref
  assume wf: "wfT q" and "ref \<in> (\<Union>d. ran (absT q d))"
  then obtain d where ref: "ref \<in> ran (absT q d)" by blast
  from wf have dist: "distinct (map fst (getDefault q d))" by (rule wfT_getDefault)
  from ref dist have r: "ref \<in> snd ` set (getDefault q d)" by (simp add: absT_def ran_distinct)
  then have "getDefault q d \<noteq> []" by auto
  with getDefault_cases [of q d] have "(d, getDefault q d) \<in> set q" by simp
  with r show "ref \<in> set (flattenRefs q)" by (force simp: flattenRefs_def)
qed

lemma set_refsOf: "wfQ tq \<Longrightarrow> set (refsOf tq k) = (\<Union>d. ran (absQ tq k d))"
  by (simp add: refsOf_def absQ_def set_flattenRefs wfQ_getDefault)

lemma refsOf_sub:
  assumes "addSides ds ql rows [] = Inr tq"
  shows "set (refsOf tq k) \<subseteq> (\<Union>d. groupRefs ds ql rows k d)"
proof
  fix ref
  assume "ref \<in> set (refsOf tq k)"
  with set_refsOf [OF addSides_wf [OF assms wfQ_Nil]] obtain d dk where "absQ tq k d dk = Some ref"
    by (auto simp: ran_def)
  from addSides_val [OF assms this] show "ref \<in> (\<Union>d. groupRefs ds ql rows k d)"
    by (auto simp: absQ_Nil)
qed

lemma refsOf_keys:
  assumes "addSides ds ql rows [] = Inr tq"
  shows "dataRefKey ` set (refsOf tq k) = (\<Union>d. dataRefKey ` groupRefs ds ql rows k d)"
proof (intro set_eqI iffI)
  fix x
  assume "x \<in> dataRefKey ` set (refsOf tq k)"
  with refsOf_sub [OF assms, of k] show "x \<in> (\<Union>d. dataRefKey ` groupRefs ds ql rows k d)"
    by blast
next
  fix x
  assume "x \<in> (\<Union>d. dataRefKey ` groupRefs ds ql rows k d)"
  then obtain d where "x \<in> dataRefKey ` groupRefs ds ql rows k d" by blast
  with addSides_dom [OF assms, of k d] have "x \<in> dom (absQ tq k d)" by (simp add: absQ_Nil)
  then obtain ref where ref: "absQ tq k d x = Some ref" by blast
  from addSides_val [OF assms this] have "dataRefKey ref = x" by (simp add: absQ_Nil)
  moreover from ref have "ref \<in> set (refsOf tq k)"
    using set_refsOf [OF addSides_wf [OF assms wfQ_Nil], of k] by (auto simp: ran_def)
  ultimately show "x \<in> dataRefKey ` set (refsOf tq k)" by blast
qed

lemma refsOf_empty: "addSides [] ql rows [] = Inr tq \<Longrightarrow> refsOf tq k = []"
  using refsOf_sub [of "[]" ql rows tq k] by (simp add: groupRefs_def)

lemma refsOf_nonempty:
  assumes "addSides ds ql rows [] = Inr tq" and "ds \<noteq> []" and "k \<in> set (map fst tq)"
  shows "refsOf tq k \<noteq> []"
proof -
  from addSides_keys [OF assms(1)] assms(3) obtain r where r: "r \<in> set rows" "makeQkey r ql = Inr k"
    by auto
  from addSides_ok [of ds ql rows "[]"] assms(1) r(1) have "rowOk ds ql r"
    by (auto simp: list_all_iff)
  with assms(2) obtain ref where "datasetRefs r (hd ds) = Some ref"
    by (cases ds) (auto simp: rowOk_def)
  with r assms(2) have "ref \<in> groupRefs ds ql rows k (hd ds)" by (auto simp: groupRefs_def)
  then have "dataRefKey ref \<in> (\<Union>d. dataRefKey ` groupRefs ds ql rows k d)" by blast
  with refsOf_keys [OF assms(1), of k] show ?thesis by auto
qed

text \<open>
  The existence policy as the table of the specification gives it, for a non-empty
  candidate output set: the quantum of a grouping key is dropped, or the build fails,
  or the quantum is built.
\<close>

datatype fate = Dropped | Raises | Built

definition specPolicy :: "bool \<Rightarrow> datasetRef list \<Rightarrow> fate" where
  "specPolicy skip outs =
     (if list_all exists_ref outs then (if skip then Dropped else Raises)
      else if list_ex exists_ref outs then Raises
      else Built)"

lemma policy_refines:
  assumes "outs \<noteq> []"
  shows "conflicting skip outs \<longleftrightarrow> specPolicy skip outs = Raises"
    and "skipped skip outs \<longleftrightarrow> specPolicy skip outs = Dropped"
proof -
  have "list_ex exists_ref outs" if "list_all exists_ref outs"
    using that assms by (cases outs) simp_all
  then show "conflicting skip outs \<longleftrightarrow> specPolicy skip outs = Raises"
    and "skipped skip outs \<longleftrightarrow> specPolicy skip outs = Dropped"
    by (auto simp: conflicting_def skipped_def specPolicy_def)
qed

lemma makeGraph_nodes:
  assumes "loadAll (taskFactory b) s pipeline = Inr (s', taskList)"
    and "collectAll (map (\<lambda>a. s' ! a) taskList) = Inr tds"
    and "makeFullIODatasetTypes tds = Inr (ins, outs, initIns, initOuts)"
    and "parserYacc b (or_empty userQuery) = Inr pq"
    and "selectDimensions (registry b) origin (map_option str_of_tree pq) ins outs = Inr rows"
    and "fst (makeGraph b h s pipeline origin userQuery) = Inr g"
  shows "list_all2 (\<lambda>td n. makeTaskNode b rows td = Inr n) tds (nodes g)"
proof -
  from assms(6) have "fst (private_makeGraph b h tds ins outs initIns initOuts origin userQuery) = Inr g"
    unfolding makeGraph_reaches [OF assms(1,2,3)] by simp
  from pm_ok [OF this] assms(4,5) have "makeTaskNodes b rows tds = Inr (nodes g)" by auto
  then show ?thesis by (rule makeTaskNodes_all2)
qed

lemma makeGraph_fatal:
  assumes "loadAll (taskFactory b) s pipeline = Inr (s', taskList)"
    and "collectAll (map (\<lambda>a. s' ! a) taskList) = Inr tds"
    and "makeFullIODatasetTypes tds = Inr (ins, outs, initIns, initOuts)"
    and "parserYacc b (or_empty userQuery) = Inr pq"
    and "selectDimensions (registry b) origin (map_option str_of_tree pq) ins outs = Inr rows"
    and "td \<in> set tds" and "makeTaskNode b rows td = Inl e"
  shows "\<exists>e'. fst (makeGraph b h s pipeline origin userQuery) = Inl e'"
proof (cases "fst (makeGraph b h s pipeline origin userQuery)")
  case (Inl e')
  then show ?thesis by blast
next
  case (Inr g)
  from makeGraph_nodes [OF assms(1-5) Inr] assms(6) obtain n where "makeTaskNode b rows td = Inr n"
    by (auto simp: list_all2_conv_all_nth in_set_conv_nth)
  with assms(7) show ?thesis by simp
qed

text \<open>
  Claim C1. Take a task that declares an output, with its tables after all rows are
  folded in. Every grouping key then has a non-empty candidate output set, and the
  task's node is what the table of the policy says: if some key is in a cell that
  raises, the task fails with \<open>OutputExistsError\<close> for the first such key in the order
  of iteration, with the task name and the candidate outputs of that key; otherwise
  the node holds one quantum for every key in a cell that proceeds, in the order of the
  keys, and none for the keys whose quantum is dropped. The failure of a task makes
  \<open>makeGraph\<close> fail, and a graph that \<open>makeGraph\<close> returns holds, task by task, the
  nodes so built.
\<close>

theorem existence_policy:
  assumes "outputs td \<noteq> []"
    and "quantumLinks (dimensions (registry b)) (quantum_dimensions (config (taskDef td))) = Inr ql"
    and "addRows td ql rows ([], []) = Inr (tqi, tqo)"
  shows "list_all (\<lambda>p. refsOf tqo (fst p) \<noteq> []) tqi \<and>
    makeTaskNode b rows td =
      (case find (\<lambda>p. specPolicy (skipExisting b) (refsOf tqo (fst p)) = Raises) tqi of
         Some p \<Rightarrow> Inl (OutputExistsError (taskName (taskDef td)) (refsOf tqo (fst p)))
       | None \<Rightarrow> Inr \<lparr>nodeTaskDef = taskDef td,
           quanta = map (mkQuantum tqo)
             (filter (\<lambda>p. specPolicy (skipExisting b) (refsOf tqo (fst p)) = Built) tqi)\<rparr>) \<and>
    (\<forall>h s s' pipeline taskList tds ins outs initIns initOuts origin userQuery pq.
       loadAll (taskFactory b) s pipeline = Inr (s', taskList) \<longrightarrow>
       collectAll (map (\<lambda>a. s' ! a) taskList) = Inr tds \<longrightarrow>
       makeFullIODatasetTypes tds = Inr (ins, outs, initIns, initOuts) \<longrightarrow>
       parserYacc b (or_empty userQuery) = Inr pq \<longrightarrow>
       selectDimensions (registry b) origin (map_option str_of_tree pq) ins outs = Inr rows \<longrightarrow>
       td \<in> set tds \<longrightarrow>
       (\<forall>e. makeTaskNode b rows td = Inl e \<longrightarrow>
          (\<exists>e'. fst (makeGraph b h s pipeline origin userQuery) = Inl e')) \<and>
       (\<forall>g. fst (makeGraph b h s pipeline origin userQuery) = Inr g \<longrightarrow>
          list_all2 (\<lambda>td n. makeTaskNode b rows td = Inr n) tds (nodes g)))"
proof (intro conjI allI impI)
  note t = addRows_tables [OF assms(3)]
  have ne: "refsOf tqo (fst p) \<noteq> []" if "p \<in> set tqi" for p
  proof -
    from that have "fst p \<in> set (map fst tqo)" unfolding t(3) [symmetric] by simp
    with refsOf_nonempty [OF t(2) assms(1)] show ?thesis .
  qed
  then show "list_all (\<lambda>p. refsOf tqo (fst p) \<noteq> []) tqi" by (simp add: list_all_iff)
  let ?skip = "skipExisting b"
  have c: "find (\<lambda>p. conflicting ?skip (refsOf tqo (fst p))) tqi =
      find (\<lambda>p. specPolicy ?skip (refsOf tqo (fst p)) = Raises) tqi"
    by (rule find_cong) (simp_all add: policy_refines(1) [OF ne])
  have f: "filter (\<lambda>p. \<not> skipped ?skip (refsOf tqo (fst p))) tqi =
      filter (\<lambda>p. specPolicy ?skip (refsOf tqo (fst p)) = Built) tqi"
    if "find (\<lambda>p. specPolicy ?skip (refsOf tqo (fst p)) = Raises) tqi = None"
  proof (rule filter_cong [OF refl])
    fix p
    assume p: "p \<in> set tqi"
    with that have "specPolicy ?skip (refsOf tqo (fst p)) \<noteq> Raises"
      unfolding find_None_iff by blast
    then show "(\<not> skipped ?skip (refsOf tqo (fst p))) = (specPolicy ?skip (refsOf tqo (fst p)) = Built)"
      using policy_refines(2) [OF ne [OF p], of ?skip]
      by (cases "specPolicy ?skip (refsOf tqo (fst p))") simp_all
  qed
  show "makeTaskNode b rows td =
      (case find (\<lambda>p. specPolicy ?skip (refsOf tqo (fst p)) = Raises) tqi of
         Some p \<Rightarrow> Inl (OutputExistsError (taskName (taskDef td)) (refsOf tqo (fst p)))
       | None \<Rightarrow> Inr \<lparr>nodeTaskDef = taskDef td,
           quanta = map (mkQuantum tqo)
             (filter (\<lambda>p. specPolicy ?skip (refsOf tqo (fst p)) = Built) tqi)\<rparr>)"
    unfolding makeTaskNode_find [OF assms(2,3)] c using f by (simp split: option.splits)
next
  fix h s s' pipeline taskList tds ins outs initIns initOuts origin userQuery pq e
  assume "loadAll (taskFactory b) s pipeline = Inr (s', taskList)"
    "collectAll (map (\<lambda>a. s' ! a) taskList) = Inr tds"
    "makeFullIODatasetTypes tds = Inr (ins, outs, initIns, initOuts)"
    "parserYacc b (or_empty userQuery) = Inr pq"
    "selectDimensions (registry b) origin (map_option str_of_tree pq) ins outs = Inr rows"
    "td \<in> set tds" "makeTaskNode b rows td = Inl e"
  then show "\<exists>e'. fst (makeGraph b h s pipeline origin userQuery) = Inl e'"
    by (rule makeGraph_fatal)
next
  fix h s s' pipeline taskList tds ins outs initIns initOuts origin userQuery pq g
  assume "loadAll (taskFactory b) s pipeline = Inr (s', taskList)"
    "collectAll (map (\<lambda>a. s' ! a) taskList) = Inr tds"
    "makeFullIODatasetTypes tds = Inr (ins, outs, initIns, initOuts)"
    "parserYacc b (or_empty userQuery) = Inr pq"
    "selectDimensions (registry b) origin (map_option str_of_tree pq) ins outs = Inr rows"
    "fst (makeGraph b h s pipeline origin userQuery) = Inr g"
  then show "list_all2 (\<lambda>td n. makeTaskNode b rows td = Inr n) tds (nodes g)"
    by (rule makeGraph_nodes)
qed

text \<open>
  Claim C9. Take a task that declares no output, with its tables after all rows are
  folded in. With \<open>skipExisting\<close> its node has no quantum, although the rows, if there
  are any, give at least one grouping key. Without \<open>skipExisting\<close> its node has one
  quantum for every grouping key, each with no output.
\<close>

theorem no_outputs_task:
  assumes "outputs td = []"
    and "quantumLinks (dimensions (registry b)) (quantum_dimensions (config (taskDef td))) = Inr ql"
    and "addRows td ql rows ([], []) = Inr (tqi, tqo)"
  shows "makeTaskNode b rows td =
      Inr \<lparr>nodeTaskDef = taskDef td,
           quanta = (if skipExisting b then []
             else map (\<lambda>p. \<lparr>predictedInputs = flattenRefs (snd p), quantumOutputs = []\<rparr>) tqi)\<rparr> \<and>
    (rows \<noteq> [] \<longrightarrow> tqi \<noteq> []) \<and>
    length tqi = card {k. \<exists>r\<in>set rows. makeQkey r ql = Inr k}"
proof (intro conjI impI)
  note t = addRows_tables [OF assms(3)]
  from t(2) assms(1) have e: "refsOf tqo k = []" for k by (simp add: refsOf_empty)
  show "makeTaskNode b rows td =
      Inr \<lparr>nodeTaskDef = taskDef td,
           quanta = (if skipExisting b then []
             else map (\<lambda>p. \<lparr>predictedInputs = flattenRefs (snd p), quantumOutputs = []\<rparr>) tqi)\<rparr>"
    unfolding makeTaskNode_find [OF assms(2,3)]
    by (simp add: e conflicting_def skipped_def find_None_iff [THEN iffD2] mkQuantum_def)
  from t(4) have "distinct (map fst tqi)" by (simp add: wfQ_def)
  then have "card (set (map fst tqi)) = length tqi" using distinct_card by fastforce
  with t(6) show "length tqi = card {k. \<exists>r\<in>set rows. makeQkey r ql = Inr k}" by simp
  show "tqi \<noteq> []" if "rows \<noteq> []"
  proof -
    from that obtain r where r: "r \<in> set rows" by (cases rows) auto
    from addSides_ok [of "inputs td" ql rows "[]"] t(1) r have "rowOk (inputs td) ql r"
      by (auto simp: list_all_iff)
    then obtain k where "makeQkey r ql = Inr k" by (auto simp: rowOk_def)
    with r t(6) have "k \<in> set (map fst tqi)" by auto
    then show ?thesis by auto
  qed
qed

text \<open>
  Claim C10. In a graph that \<open>makeGraph\<close> returns, no output of any quantum of any
  task node has an identity.
\<close>

theorem fresh_outputs:
  assumes "fst (makeGraph b h s pipeline origin userQuery) = Inr g"
  shows "\<forall>n\<in>set (nodes g). \<forall>q\<in>set (quanta n). \<forall>r\<in>set (quantumOutputs q). ref_id r = None"
proof -
  from makeGraph_ok [OF assms] obtain tds ins outs initIns initOuts where
    "fst (private_makeGraph b h tds ins outs initIns initOuts origin userQuery) = Inr g" by blast
  from pm_ok [OF this] obtain rows where "makeTaskNodes b rows tds = Inr (nodes g)" by blast
  from makeTaskNodes_all2 [OF this]
  have "\<exists>td. makeTaskNode b rows td = Inr n" if "n \<in> set (nodes g)" for n
    using that by (auto simp: list_all2_conv_all_nth in_set_conv_nth)
  then show ?thesis using makeTaskNode_fresh by (fastforce simp: list_all_iff)
qed

section \<open>The policy on the pipeline of one task\<close>

text \<open>
  Rows \<open>A\<close>: the output of \<open>v = 1\<close> exists, that of \<open>v = 2\<close> does not. Rows \<open>B\<close>:
  of the two outputs of \<open>v = 1\<close> one exists. \<open>ex_group\<close> writes the entry of a grouping
  key in a table.
\<close>

definition ex_rowsA :: "dimensionRow list" where
  "ex_rowsA = [ex_row 1 0 10 (Some 5), ex_row 2 0 10 None]"

definition ex_rowsB :: "dimensionRow list" where
  "ex_rowsB = [ex_row 1 0 10 (Some 5), ex_row 1 0 11 None]"

definition ex_group :: "datasetType \<Rightarrow> int \<Rightarrow> (int \<times> nat option) list \<Rightarrow> dataId \<times> typeMap" where
  "ex_group d v xs =
     ([(''v'', v)], [(d, map (\<lambda>x. ([(''d'', fst x), (''v'', v)], ex_ref d v (fst x) (snd x))) xs)])"

lemmas ex_defs2 = ex_rowsA_def ex_rowsB_def ex_group_def ex_row_def ex_ref_def ex_raw_def
  ex_calexp_def ex_initTask_def

lemmas table_defs = addRow_def getDefault_def dataRefKey_def

lemma ex_qlinks:
  "quantumLinks (dimensions (registry (ex_builder skip rows found)))
     (quantum_dimensions (config (taskDef ex_initTask))) = Inr [''v'']"
  by (simp add: ex_builder_sel ex_registry_sel ex_initTask_def ex_initStore_def ex_config_def)

lemma ex_tablesA:
  "addRows ex_initTask [''v''] ex_rowsA ([], []) =
     Inr ([ex_group ex_raw 1 [(10, Some 7)], ex_group ex_raw 2 [(10, Some 7)]],
          [ex_group ex_calexp 1 [(10, Some 5)], ex_group ex_calexp 2 [(10, None)]])"
  by (simp add: ex_defs2 table_defs)

lemma ex_tablesB:
  "addRows ex_initTask [''v''] ex_rowsB ([], []) =
     Inr ([ex_group ex_raw 1 [(10, Some 7), (11, Some 7)]],
          [ex_group ex_calexp 1 [(10, Some 5), (11, None)]])"
  by (simp add: ex_defs2 table_defs)

lemma ex_outputs: "outputs ex_initTask \<noteq> []"
  by (simp add: ex_initTask_def)

lemmas policy_defs = specPolicy_def refsOf_def flattenRefs_def getDefault_def exists_ref_def
  mkQuantum_def

text \<open>
  Claim C1 on these rows. Rows \<open>A\<close> with \<open>skipExisting\<close>: the quantum of \<open>v = 1\<close> is
  dropped and that of \<open>v = 2\<close> is built. Rows \<open>A\<close> without \<open>skipExisting\<close>, and rows
  \<open>B\<close> with it: \<open>OutputExistsError\<close>, and \<open>makeGraph\<close> fails.
\<close>

theorem existence_policy_witness:
  "outputs ex_initTask \<noteq> [] \<and>
   quantumLinks (dimensions (registry (ex_builder True ex_rowsA True)))
     (quantum_dimensions (config (taskDef ex_initTask))) = Inr [''v''] \<and>
   addRows ex_initTask [''v''] ex_rowsA ([], []) =
     Inr ([ex_group ex_raw 1 [(10, Some 7)], ex_group ex_raw 2 [(10, Some 7)]],
          [ex_group ex_calexp 1 [(10, Some 5)], ex_group ex_calexp 2 [(10, None)]]) \<and>
   addRows ex_initTask [''v''] ex_rowsB ([], []) =
     Inr ([ex_group ex_raw 1 [(10, Some 7), (11, Some 7)]],
          [ex_group ex_calexp 1 [(10, Some 5), (11, None)]]) \<and>
   makeTaskNode (ex_builder True ex_rowsA True) ex_rowsA ex_initTask =
     Inr \<lparr>nodeTaskDef = taskDef ex_initTask,
          quanta = [\<lparr>predictedInputs = [ex_ref ex_raw 2 10 (Some 7)],
                     quantumOutputs = [ex_ref ex_calexp 2 10 None]\<rparr>]\<rparr> \<and>
   makeTaskNode (ex_builder False ex_rowsA True) ex_rowsA ex_initTask =
     Inl (OutputExistsError (taskName (taskDef ex_initTask)) [ex_ref ex_calexp 1 10 (Some 5)]) \<and>
   makeTaskNode (ex_builder True ex_rowsB True) ex_rowsB ex_initTask =
     Inl (OutputExistsError (taskName (taskDef ex_initTask))
       [ex_ref ex_calexp 1 10 (Some 5), ex_ref ex_calexp 1 11 None]) \<and>
   (\<exists>e'. fst (makeGraph (ex_builder False ex_rowsA True) ex_hash ex_initStore [0] ex_origin None) = Inl e')"
proof -
  note tA = existence_policy [OF ex_outputs ex_qlinks ex_tablesA, of True ex_rowsA True]
  note tA' = existence_policy [OF ex_outputs ex_qlinks ex_tablesA, of False ex_rowsA True]
  note tB = existence_policy [OF ex_outputs ex_qlinks ex_tablesB, of True ex_rowsB True]
  from tA have a: "makeTaskNode (ex_builder True ex_rowsA True) ex_rowsA ex_initTask =
     Inr \<lparr>nodeTaskDef = taskDef ex_initTask,
          quanta = [\<lparr>predictedInputs = [ex_ref ex_raw 2 10 (Some 7)],
                     quantumOutputs = [ex_ref ex_calexp 2 10 None]\<rparr>]\<rparr>"
    by (simp add: ex_builder_sel policy_defs ex_group_def ex_ref_def ex_raw_def ex_calexp_def)
  from tA' have a': "makeTaskNode (ex_builder False ex_rowsA True) ex_rowsA ex_initTask =
     Inl (OutputExistsError (taskName (taskDef ex_initTask)) [ex_ref ex_calexp 1 10 (Some 5)])"
    by (simp add: ex_builder_sel policy_defs ex_group_def ex_ref_def ex_raw_def ex_calexp_def)
  from tB have b: "makeTaskNode (ex_builder True ex_rowsB True) ex_rowsB ex_initTask =
     Inl (OutputExistsError (taskName (taskDef ex_initTask))
       [ex_ref ex_calexp 1 10 (Some 5), ex_ref ex_calexp 1 11 None])"
    by (simp add: ex_builder_sel policy_defs ex_group_def ex_ref_def ex_raw_def ex_calexp_def)
  have p: "parserYacc (ex_builder False ex_rowsA True) (or_empty None) = Inr None"
    by (simp add: ex_builder_sel or_empty_def ex_parser_simps)
  have q: "selectDimensions (registry (ex_builder False ex_rowsA True)) ex_origin
      (map_option str_of_tree None) [ex_raw] [ex_calexp] = Inr ex_rowsA"
    by (simp add: ex_builder_sel ex_registry_sel)
  have m: "ex_initTask \<in> set [ex_initTask]" by simp
  from tA' ex_init_load [of False ex_rowsA True] ex_init_collect ex_init_io p q m a'
  have f: "\<exists>e'. fst (makeGraph (ex_builder False ex_rowsA True) ex_hash ex_initStore [0] ex_origin None) = Inl e'"
    by blast
  from ex_outputs ex_qlinks [of True ex_rowsA True] ex_tablesA ex_tablesB a a' b f
  show ?thesis by blast
qed


text \<open>A task that reads \<open>raw\<close> and declares no output.\<close>

definition ex_sink :: taskDatasetTypes where
  "ex_sink = \<lparr>taskDef = ex_initStore ! 0, inputs = [ex_raw], outputs = [],
     initInputs = [], initOutputs = []\<rparr>"

lemma ex_sink_qlinks:
  "quantumLinks (dimensions (registry (ex_builder skip rows found)))
     (quantum_dimensions (config (taskDef ex_sink))) = Inr [''v'']"
  by (simp add: ex_builder_sel ex_registry_sel ex_sink_def ex_initStore_def ex_config_def)

lemma ex_sink_tables:
  "addRows ex_sink [''v''] ex_rows ([], []) =
     Inr ([ex_group ex_raw 1 [(10, Some 7), (11, Some 7)]], [([(''v'', 1)], [])])"
  by (simp add: ex_sink_def ex_rows_def ex_defs2 table_defs)

text \<open>
  Claim C9 on this task: no quantum with \<open>skipExisting\<close>, one quantum without output
  otherwise.
\<close>

theorem no_outputs_task_witness:
  "outputs ex_sink = [] \<and>
   quantumLinks (dimensions (registry (ex_builder True ex_rows True)))
     (quantum_dimensions (config (taskDef ex_sink))) = Inr [''v''] \<and>
   addRows ex_sink [''v''] ex_rows ([], []) =
     Inr ([ex_group ex_raw 1 [(10, Some 7), (11, Some 7)]], [([(''v'', 1)], [])]) \<and>
   ex_rows \<noteq> [] \<and>
   makeTaskNode (ex_builder True ex_rows True) ex_rows ex_sink =
     Inr \<lparr>nodeTaskDef = taskDef ex_sink, quanta = []\<rparr> \<and>
   makeTaskNode (ex_builder False ex_rows True) ex_rows ex_sink =
     Inr \<lparr>nodeTaskDef = taskDef ex_sink,
          quanta = [\<lparr>predictedInputs = [ex_ref ex_raw 1 10 (Some 7), ex_ref ex_raw 1 11 (Some 7)],
                     quantumOutputs = []\<rparr>]\<rparr>"
proof -
  have o: "outputs ex_sink = []" by (simp add: ex_sink_def)
  have n: "ex_rows \<noteq> []" by (simp add: ex_rows_def)
  note t = no_outputs_task [OF o ex_sink_qlinks ex_sink_tables, of True ex_rows True]
  note t' = no_outputs_task [OF o ex_sink_qlinks ex_sink_tables, of False ex_rows True]
  from t have a: "makeTaskNode (ex_builder True ex_rows True) ex_rows ex_sink =
     Inr \<lparr>nodeTaskDef = taskDef ex_sink, quanta = []\<rparr>"
    by (simp add: ex_builder_sel)
  from t' have b: "makeTaskNode (ex_builder False ex_rows True) ex_rows ex_sink =
     Inr \<lparr>nodeTaskDef = taskDef ex_sink,
          quanta = [\<lparr>predictedInputs = [ex_ref ex_raw 1 10 (Some 7), ex_ref ex_raw 1 11 (Some 7)],
                     quantumOutputs = []\<rparr>]\<rparr>"
    by (simp add: ex_builder_sel ex_group_def flattenRefs_def)
  from o ex_sink_qlinks [of True ex_rows True] ex_sink_tables n a b show ?thesis by blast
qed

text \<open>The graph of rows \<open>A\<close> when existing outputs are skipped.\<close>

definition ex_graphA :: quantumGraph where
  "ex_graphA = \<lparr>nodes = [\<lparr>nodeTaskDef = ex_initStore ! 0,
        quanta = [\<lparr>predictedInputs = [ex_ref ex_raw 2 10 (Some 7)],
                   quantumOutputs = [ex_ref ex_calexp 2 10 None]\<rparr>]\<rparr>],
     inputDatasetTypes = [ex_raw], outputDatasetTypes = [ex_calexp],
     graphInitInputs = [ex_cfgRef], graphInitOutputs = []\<rparr>"

lemma ex_nodeA:
  "makeTaskNode (ex_builder True ex_rowsA found) ex_rowsA ex_initTask =
     Inr \<lparr>nodeTaskDef = ex_initStore ! 0,
          quanta = [\<lparr>predictedInputs = [ex_ref ex_raw 2 10 (Some 7)],
                     quantumOutputs = [ex_ref ex_calexp 2 10 None]\<rparr>]\<rparr>"
  by (simp add: ex_builder_sel ex_registry_sel ex_rowsA_def ex_defs run_defs)

lemma ex_runA:
  "makeGraph (ex_builder True ex_rowsA True) ex_hash ex_initStore [0] ex_origin None =
     (Inr ex_graphA,
      [Parse [], SelectDimensions None [ex_raw] [ex_calexp], Find ''c1'' ex_cfg, Find ''c2'' ex_cfg],
      ex_initStore)"
  unfolding ex_init_run ex_graphA_def
  by (simp add: pm_defs or_empty_def ex_builder_sel ex_registry_sel ex_nodeA ex_collections
      ex_parser_simps set_iter_single)

text \<open>Claim C10 on this graph: its one quantum has an output, and the output has no identity.\<close>

theorem fresh_outputs_witness:
  "fst (makeGraph (ex_builder True ex_rowsA True) ex_hash ex_initStore [0] ex_origin None) = Inr ex_graphA \<and>
   nodes ex_graphA \<noteq> [] \<and>
   list_all (\<lambda>n. quanta n \<noteq> [] \<and>
     list_all (\<lambda>q. list_all (\<lambda>r. ref_id r = None) (quantumOutputs q)) (quanta n)) (nodes ex_graphA)"
proof -
  have g: "fst (makeGraph (ex_builder True ex_rowsA True) ex_hash ex_initStore [0] ex_origin None) = Inr ex_graphA"
    by (simp add: ex_runA)
  have "list_all (\<lambda>n. list_all (\<lambda>q. list_all (\<lambda>r. ref_id r = None) (quantumOutputs q)) (quanta n))
    (nodes ex_graphA)"
    using fresh_outputs [OF g] by (simp add: list_all_iff)
  moreover have "nodes ex_graphA \<noteq> []" "list_all (\<lambda>n. quanta n \<noteq> []) (nodes ex_graphA)"
    by (simp_all add: ex_graphA_def)
  ultimately show ?thesis using g by (simp add: list_all_iff)
qed

section \<open>Deduplication\<close>

text \<open>
  Rows are well typed for a list of dataset types when the reference a row holds for a
  type of the list is a reference of that type.
\<close>

definition wellTyped :: "datasetType list \<Rightarrow> dimensionRow list \<Rightarrow> bool" where
  "wellTyped ds rows =
     list_all (\<lambda>r. list_all (\<lambda>d. case datasetRefs r d of None \<Rightarrow> True
                                 | Some ref \<Rightarrow> datasetType ref = d) ds) rows"

text \<open>How often a dataset instance, a dataset type with the key of a data id, occurs in a list.\<close>

definition occurrences :: "datasetType \<Rightarrow> dataId \<Rightarrow> datasetRef list \<Rightarrow> nat" where
  "occurrences d dk refs = length (filter (\<lambda>r. datasetType r = d \<and> dataRefKey r = dk) refs)"

lemma count_distinct_key:
  "distinct (map fst m) \<Longrightarrow> k \<in> fst ` set m \<Longrightarrow> length (filter (\<lambda>p. fst p = k) m) = 1"
proof (induction m)
  case Nil
  then show ?case by simp
next
  case (Cons p m)
  show ?case
  proof (cases "fst p = k")
    case True
    with Cons.prems have "k \<notin> fst ` set m" by auto
    then have "filter (\<lambda>p. fst p = k) m = []" by (auto simp: filter_empty_conv)
    with True show ?thesis by simp
  next
    case False
    with Cons show ?thesis by auto
  qed
qed

lemma count_distinct_map:
  "distinct (map f xs) \<Longrightarrow> x \<in> set xs \<Longrightarrow> length (filter (\<lambda>y. f y = f x) xs) = 1"
proof (induction xs)
  case Nil
  then show ?case by simp
next
  case (Cons a xs)
  show ?case
  proof (cases "f a = f x")
    case True
    with Cons.prems have "f a \<notin> f ` set xs" by simp
    then have "\<forall>y\<in>set xs. f y \<noteq> f a" by (metis imageI)
    with True have "filter (\<lambda>y. f y = f x) xs = []" by (simp add: filter_empty_conv)
    with True show ?thesis by simp
  next
    case False
    with Cons show ?thesis by auto
  qed
qed

lemma count_le_distinct_map:
  "distinct (map f xs) \<Longrightarrow> length (filter (\<lambda>y. f y = v) xs) \<le> 1"
proof (cases "v \<in> f ` set xs")
  case True
  then obtain x where "x \<in> set xs" "v = f x" by auto
  moreover assume "distinct (map f xs)"
  ultimately show ?thesis using count_distinct_map [of f xs x] by simp
next
  case False
  then have "filter (\<lambda>y. f y = v) xs = []" by (auto simp: filter_empty_conv)
  then show ?thesis by simp
qed

definition instanceOf :: "datasetRef \<Rightarrow> datasetType \<times> dataId" where
  "instanceOf r = (datasetType r, dataRefKey r)"

lemma distinct_flatten:
  assumes "wfT q"
    and "\<And>d m dk ref. (d, m) \<in> set q \<Longrightarrow> (dk, ref) \<in> set m \<Longrightarrow> instanceOf ref = (d, dk)"
  shows "distinct (map instanceOf (flattenRefs q))"
  using assms
proof (induction q)
  case Nil
  show ?case by (simp add: flattenRefs_def)
next
  case (Cons p q)
  obtain d m where p: "p = (d, m)" by (cases p)
  from Cons.prems(1) have wf: "wfT q" and dm: "distinct (map fst m)" and dn: "d \<notin> fst ` set q"
    by (auto simp: wfT_def p)
  have IH: "distinct (map instanceOf (flattenRefs q))"
    using Cons.IH [OF wf] Cons.prems(2) by auto
  have eq: "map instanceOf (map snd m) = map (\<lambda>x. (d, fst x)) m"
    using Cons.prems(2) [of d m] by (auto simp: p)
  have "inj_on (\<lambda>x. (d, x)) (set (map fst m))" by (simp add: inj_on_def)
  with dm have "distinct (map (\<lambda>x. (d, x)) (map fst m))" by (simp only: distinct_map)
  then have d1: "distinct (map instanceOf (map snd m))" unfolding eq by (simp add: comp_def)
  have d2: "fst x \<noteq> d" if "x \<in> set (map instanceOf (flattenRefs q))" for x
  proof -
    from that obtain d' m' dk ref where "(d', m') \<in> set q" "(dk, ref) \<in> set m'" "x = instanceOf ref"
      by (fastforce simp: flattenRefs_def)
    with Cons.prems(2) [of d' m' dk ref] dn show ?thesis by force
  qed
  have d3: "fst x = d" if "x \<in> set (map instanceOf (map snd m))" for x
    using that unfolding eq by auto
  have "set (map instanceOf (map snd m)) \<inter> set (map instanceOf (flattenRefs q)) = {}"
    using d2 d3 by blast
  with d1 IH show ?case by (simp add: flattenRefs_def p)
qed


lemma table_entries:
  assumes "addSides ds ql rows [] = Inr tq"
    and "(d, m) \<in> set (getDefault tq k)" and "(dk, ref) \<in> set m"
  shows "dataRefKey ref = dk \<and> ref \<in> groupRefs ds ql rows k d"
proof -
  have wf: "wfT (getDefault tq k)"
    using addSides_wf [OF assms(1) wfQ_Nil] by (rule wfQ_getDefault)
  with assms(2) have g: "getDefault (getDefault tq k) d = m" and dm: "distinct (map fst m)"
    by (auto simp: wfT_def getDefault_in list_all_iff)
  from dm assms(3) have "map_of m dk = Some ref" by simp
  then have "absQ tq k d dk = Some ref" by (simp add: absQ_def absT_def g)
  from addSides_val [OF assms(1) this] show ?thesis by (simp add: absQ_Nil)
qed

lemma wellTyped_group:
  "wellTyped ds rows \<Longrightarrow> ref \<in> groupRefs ds ql rows k d \<Longrightarrow> datasetType ref = d"
  by (fastforce simp: wellTyped_def groupRefs_def list_all_iff)

lemma refsOf_distinct:
  assumes "addSides ds ql rows [] = Inr tq" and "wellTyped ds rows"
  shows "distinct (map instanceOf (refsOf tq k))"
  unfolding refsOf_def
proof (rule distinct_flatten)
  show "wfT (getDefault tq k)"
    using addSides_wf [OF assms(1) wfQ_Nil] by (rule wfQ_getDefault)
next
  fix d m dk ref
  assume "(d, m) \<in> set (getDefault tq k)" "(dk, ref) \<in> set m"
  from table_entries [OF assms(1) this] wellTyped_group [OF assms(2)]
  show "instanceOf ref = (d, dk)" by (auto simp: instanceOf_def)
qed

lemma occurrences_le:
  "distinct (map instanceOf refs) \<Longrightarrow> occurrences d dk refs \<le> 1"
  using count_le_distinct_map [of instanceOf refs "(d, dk)"]
  by (simp add: occurrences_def instanceOf_def)

lemma dedup_side:
  assumes "addSides ds ql rows [] = Inr tq" and "r \<in> set rows" and "makeQkey r ql = Inr k"
    and "d \<in> set ds" and "datasetRefs r d = Some ref"
  shows "length (filter (\<lambda>p. fst p = dataRefKey ref) (getDefault (getDefault tq k) d)) = 1 \<and>
     (wellTyped ds rows \<longrightarrow> occurrences d (dataRefKey ref) (refsOf tq k) = 1)"
proof (intro conjI impI)
  from assms(2-5) have gr: "ref \<in> groupRefs ds ql rows k d" by (auto simp: groupRefs_def)
  with addSides_dom [OF assms(1), of k d] have dom: "dataRefKey ref \<in> dom (absQ tq k d)"
    by (simp add: absQ_Nil)
  have wf: "wfT (getDefault tq k)"
    using addSides_wf [OF assms(1) wfQ_Nil] by (rule wfQ_getDefault)
  then have dist: "distinct (map fst (getDefault (getDefault tq k) d))" by (rule wfT_getDefault)
  from dom have "dataRefKey ref \<in> fst ` set (getDefault (getDefault tq k) d)"
    by (simp add: absQ_def absT_def dom_map_of_conv_image_fst)
  with dist show "length (filter (\<lambda>p. fst p = dataRefKey ref) (getDefault (getDefault tq k) d)) = 1"
    by (rule count_distinct_key)
  assume wt: "wellTyped ds rows"
  from dom obtain ref' where ref': "absQ tq k d (dataRefKey ref) = Some ref'" by blast
  from addSides_val [OF assms(1) this]
  have k': "dataRefKey ref' = dataRefKey ref" and g': "ref' \<in> groupRefs ds ql rows k d"
    by (simp_all add: absQ_Nil)
  from wellTyped_group [OF wt g'] have dt: "datasetType ref' = d" .
  from ref' have m: "ref' \<in> set (refsOf tq k)"
    using set_refsOf [OF addSides_wf [OF assms(1) wfQ_Nil], of k] by (auto simp: ran_def)
  from count_distinct_map [OF refsOf_distinct [OF assms(1) wt] m]
  show "occurrences d (dataRefKey ref) (refsOf tq k) = 1"
    by (simp add: dt k' occurrences_def instanceOf_def)
qed

lemma makeTaskNode_quanta:
  assumes "quantumLinks (dimensions (registry b)) (quantum_dimensions (config (taskDef td))) = Inr ql"
    and "addRows td ql rows ([], []) = Inr (tqi, tqo)"
    and "makeTaskNode b rows td = Inr n"
  shows "quanta n = map (mkQuantum tqo)
      (filter (\<lambda>p. \<not> skipped (skipExisting b) (refsOf tqo (fst p))) tqi)"
    and "list_all (\<lambda>p. \<not> conflicting (skipExisting b) (refsOf tqo (fst p))) tqi"
proof -
  note f = makeTaskNode_find [OF assms(1,2)]
  from f assms(3) have none: "find (\<lambda>p. conflicting (skipExisting b) (refsOf tqo (fst p))) tqi = None"
    by (auto split: option.splits)
  with f assms(3) show "quanta n = map (mkQuantum tqo)
      (filter (\<lambda>p. \<not> skipped (skipExisting b) (refsOf tqo (fst p))) tqi)"
    by auto
  from none show "list_all (\<lambda>p. \<not> conflicting (skipExisting b) (refsOf tqo (fst p))) tqi"
    unfolding find_None_iff list_all_iff by blast
qed

lemma mkQuantum_key:
  assumes "wfQ tqi" and "p \<in> set tqi"
  shows "mkQuantum tqo p = \<lparr>predictedInputs = refsOf tqi (fst p), quantumOutputs = refsOf tqo (fst p)\<rparr>"
proof -
  from assms have "getDefault tqi (fst p) = snd p"
    using getDefault_in [of tqi "fst p" "snd p"] by (simp add: wfQ_def)
  then show ?thesis by (simp add: mkQuantum_def refsOf_def)
qed

text \<open>
  Claim C5. Take a task with its tables after all rows are folded in, and two rows of
  one grouping key whose references for a dataset type have the same key. If the type
  is an output of the task, the map of that type under the grouping key has exactly
  one entry for the key, and, the rows being well typed, the candidate outputs of the
  grouping key hold exactly one reference to that dataset instance; likewise for an
  input. When the task's node is built, the quantum of the grouping key, unless it is
  skipped, is made of these candidate outputs and inputs, and no quantum of the node
  holds two references to one dataset instance.
\<close>

theorem dedup_once:
  assumes "quantumLinks (dimensions (registry b)) (quantum_dimensions (config (taskDef td))) = Inr ql"
    and "addRows td ql rows ([], []) = Inr (tqi, tqo)"
    and "r1 \<in> set rows" and "r2 \<in> set rows"
    and "makeQkey r1 ql = Inr k" and "makeQkey r2 ql = Inr k"
    and "datasetRefs r1 d = Some ref1" and "datasetRefs r2 d = Some ref2"
    and "dataRefKey ref1 = dataRefKey ref2"
  shows "(d \<in> set (outputs td) \<longrightarrow>
       length (filter (\<lambda>p. fst p = dataRefKey ref1) (getDefault (getDefault tqo k) d)) = 1 \<and>
       (wellTyped (outputs td) rows \<longrightarrow> occurrences d (dataRefKey ref1) (refsOf tqo k) = 1)) \<and>
     (d \<in> set (inputs td) \<longrightarrow>
       length (filter (\<lambda>p. fst p = dataRefKey ref1) (getDefault (getDefault tqi k) d)) = 1 \<and>
       (wellTyped (inputs td) rows \<longrightarrow> occurrences d (dataRefKey ref1) (refsOf tqi k) = 1)) \<and>
     (\<forall>n. makeTaskNode b rows td = Inr n \<longrightarrow>
       (\<not> skipped (skipExisting b) (refsOf tqo k) \<longrightarrow>
          \<lparr>predictedInputs = refsOf tqi k, quantumOutputs = refsOf tqo k\<rparr> \<in> set (quanta n)) \<and>
       (wellTyped (outputs td) rows \<longrightarrow>
          (\<forall>q\<in>set (quanta n). \<forall>d' dk'. occurrences d' dk' (quantumOutputs q) \<le> 1)) \<and>
       (wellTyped (inputs td) rows \<longrightarrow>
          (\<forall>q\<in>set (quanta n). \<forall>d' dk'. occurrences d' dk' (predictedInputs q) \<le> 1)))"
proof (intro conjI impI allI ballI)
  note t = addRows_tables [OF assms(2)]
  {
    assume d: "d \<in> set (outputs td)"
    from dedup_side [OF t(2) assms(3,5) d assms(7)]
    show "length (filter (\<lambda>p. fst p = dataRefKey ref1) (getDefault (getDefault tqo k) d)) = 1"
      by blast
    assume "wellTyped (outputs td) rows"
    with dedup_side [OF t(2) assms(3,5) d assms(7)]
    show "occurrences d (dataRefKey ref1) (refsOf tqo k) = 1" by blast
  }
  {
    assume d: "d \<in> set (inputs td)"
    from dedup_side [OF t(1) assms(3,5) d assms(7)]
    show "length (filter (\<lambda>p. fst p = dataRefKey ref1) (getDefault (getDefault tqi k) d)) = 1"
      by blast
    assume "wellTyped (inputs td) rows"
    with dedup_side [OF t(1) assms(3,5) d assms(7)]
    show "occurrences d (dataRefKey ref1) (refsOf tqi k) = 1" by blast
  }
  fix n
  assume n: "makeTaskNode b rows td = Inr n"
  note q = makeTaskNode_quanta(1) [OF assms(1,2) n]
  have mk: "mkQuantum tqo p = \<lparr>predictedInputs = refsOf tqi (fst p), quantumOutputs = refsOf tqo (fst p)\<rparr>"
    if "p \<in> set tqi" for p using t(4) that by (rule mkQuantum_key)
  {
    assume ns: "\<not> skipped (skipExisting b) (refsOf tqo k)"
    from t(6) assms(3,5) have "k \<in> set (map fst tqi)" by auto
    then obtain p where p: "p \<in> set tqi" "fst p = k" by auto
    with ns have "mkQuantum tqo p \<in> set (quanta n)" unfolding q by auto
    with mk [OF p(1)] p(2)
    show "\<lparr>predictedInputs = refsOf tqi k, quantumOutputs = refsOf tqo k\<rparr> \<in> set (quanta n)"
      by simp
  }
  {
    fix x d' dk'
    assume wt: "wellTyped (outputs td) rows" and x: "x \<in> set (quanta n)"
    from x obtain p where "p \<in> set tqi" "x = mkQuantum tqo p" unfolding q by auto
    with mk have "quantumOutputs x = refsOf tqo (fst p)" by simp
    with occurrences_le [OF refsOf_distinct [OF t(2) wt, of "fst p"], of d' dk']
    show "occurrences d' dk' (quantumOutputs x) \<le> 1" by simp
  }
  {
    fix x d' dk'
    assume wt: "wellTyped (inputs td) rows" and x: "x \<in> set (quanta n)"
    from x obtain p where "p \<in> set tqi" "x = mkQuantum tqo p" unfolding q by auto
    with mk have "predictedInputs x = refsOf tqi (fst p)" by simp
    with occurrences_le [OF refsOf_distinct [OF t(1) wt, of "fst p"], of d' dk']
    show "occurrences d' dk' (predictedInputs x) \<le> 1" by simp
  }
qed

text \<open>
  Rows \<open>C\<close>: two rows that differ in the dimension \<open>x\<close> only, so that both hold the
  same input and the same output.
\<close>

definition ex_rowsC :: "dimensionRow list" where
  "ex_rowsC = [ex_row 1 0 10 None, ex_row 1 1 10 None]"

lemma ex_tablesC:
  "addRows ex_initTask [''v''] ex_rowsC ([], []) =
     Inr ([ex_group ex_raw 1 [(10, Some 7)]], [ex_group ex_calexp 1 [(10, None)]])"
  by (simp add: ex_rowsC_def ex_defs2 table_defs)

lemma ex_nodeC:
  "makeTaskNode (ex_builder True ex_rowsC found) ex_rowsC ex_initTask =
     Inr \<lparr>nodeTaskDef = ex_initStore ! 0,
          quanta = [\<lparr>predictedInputs = [ex_ref ex_raw 1 10 (Some 7)],
                     quantumOutputs = [ex_ref ex_calexp 1 10 None]\<rparr>]\<rparr>"
  by (simp add: ex_builder_sel ex_registry_sel ex_rowsC_def ex_defs run_defs)

lemma ex_wellTypedC: "wellTyped (outputs ex_initTask) ex_rowsC"
  by (simp add: wellTyped_def ex_rowsC_def ex_initTask_def ex_row_def ex_ref_def ex_raw_def
      ex_calexp_def)

text \<open>
  Claim C5 on rows \<open>C\<close>: two different rows, one grouping key, one output
  reference, which the quantum holds once.
\<close>

theorem dedup_once_witness:
  "quantumLinks (dimensions (registry (ex_builder True ex_rowsC True)))
     (quantum_dimensions (config (taskDef ex_initTask))) = Inr [''v''] \<and>
   addRows ex_initTask [''v''] ex_rowsC ([], []) =
     Inr ([ex_group ex_raw 1 [(10, Some 7)]], [ex_group ex_calexp 1 [(10, None)]]) \<and>
   ex_row 1 0 10 None \<in> set ex_rowsC \<and> ex_row 1 1 10 None \<in> set ex_rowsC \<and>
   ex_row 1 0 10 None \<noteq> ex_row 1 1 10 None \<and>
   makeQkey (ex_row 1 0 10 None) [''v''] = Inr [(''v'', 1)] \<and>
   makeQkey (ex_row 1 1 10 None) [''v''] = Inr [(''v'', 1)] \<and>
   datasetRefs (ex_row 1 0 10 None) ex_calexp = Some (ex_ref ex_calexp 1 10 None) \<and>
   datasetRefs (ex_row 1 1 10 None) ex_calexp = Some (ex_ref ex_calexp 1 10 None) \<and>
   ex_calexp \<in> set (outputs ex_initTask) \<and> wellTyped (outputs ex_initTask) ex_rowsC \<and>
   occurrences ex_calexp (dataRefKey (ex_ref ex_calexp 1 10 None))
     (refsOf [ex_group ex_calexp 1 [(10, None)]] [(''v'', 1)]) = 1 \<and>
   refsOf [ex_group ex_calexp 1 [(10, None)]] [(''v'', 1)] = [ex_ref ex_calexp 1 10 None] \<and>
   \<not> skipped (skipExisting (ex_builder True ex_rowsC True))
     (refsOf [ex_group ex_calexp 1 [(10, None)]] [(''v'', 1)]) \<and>
   (\<exists>n. makeTaskNode (ex_builder True ex_rowsC True) ex_rowsC ex_initTask = Inr n \<and>
      \<lparr>predictedInputs = refsOf [ex_group ex_raw 1 [(10, Some 7)]] [(''v'', 1)],
       quantumOutputs = refsOf [ex_group ex_calexp 1 [(10, None)]] [(''v'', 1)]\<rparr> \<in> set (quanta n))"
proof -
  let ?b = "ex_builder True ex_rowsC True"
  let ?r1 = "ex_row 1 0 10 None" and ?r2 = "ex_row 1 1 10 None"
  let ?ref = "ex_ref ex_calexp 1 10 None"
  have m: "?r1 \<in> set ex_rowsC" "?r2 \<in> set ex_rowsC" by (simp_all add: ex_rowsC_def)
  have ne: "?r1 \<noteq> ?r2" by (simp add: ex_row_def)
  have k: "makeQkey ?r1 [''v''] = Inr [(''v'', 1)]" "makeQkey ?r2 [''v''] = Inr [(''v'', 1)]"
    by (simp_all add: ex_row_def)
  have d: "datasetRefs ?r1 ex_calexp = Some ?ref" "datasetRefs ?r2 ex_calexp = Some ?ref"
    by (simp_all add: ex_row_def)
  have o: "ex_calexp \<in> set (outputs ex_initTask)" by (simp add: ex_initTask_def)
  have r: "refsOf [ex_group ex_calexp 1 [(10, None)]] [(''v'', 1)] = [?ref]"
    by (simp add: refsOf_def flattenRefs_def getDefault_def ex_group_def)
  have s: "\<not> skipped (skipExisting ?b) (refsOf [ex_group ex_calexp 1 [(10, None)]] [(''v'', 1)])"
    by (simp add: r skipped_def exists_ref_def ex_ref_def)
  note t = dedup_once [OF ex_qlinks ex_tablesC m k d refl, of True ex_rowsC True]
  from t o ex_wellTypedC
  have c: "occurrences ex_calexp (dataRefKey ?ref)
     (refsOf [ex_group ex_calexp 1 [(10, None)]] [(''v'', 1)]) = 1" by blast
  from t ex_nodeC [of True] s
  have q: "\<exists>n. makeTaskNode ?b ex_rowsC ex_initTask = Inr n \<and>
      \<lparr>predictedInputs = refsOf [ex_group ex_raw 1 [(10, Some 7)]] [(''v'', 1)],
       quantumOutputs = refsOf [ex_group ex_calexp 1 [(10, None)]] [(''v'', 1)]\<rparr> \<in> set (quanta n)"
    by blast
  from ex_qlinks [of True ex_rowsC True] ex_tablesC m ne k d o ex_wellTypedC c r s q
  show ?thesis by blast
qed

section \<open>The order of the rows\<close>

text \<open>
  In a fixed catalog a dataset either exists or does not: two references of the rows
  for one dataset type and one data id key agree on having an identity.
\<close>

definition sameStatus :: "dimensionRow list \<Rightarrow> bool" where
  "sameStatus rows \<longleftrightarrow>
     (\<forall>r1\<in>set rows. \<forall>r2\<in>set rows. \<forall>d ref1 ref2.
        datasetRefs r1 d = Some ref1 \<longrightarrow> datasetRefs r2 d = Some ref2 \<longrightarrow>
        dataRefKey ref1 = dataRefKey ref2 \<longrightarrow> exists_ref ref1 = exists_ref ref2)"

text \<open>The quanta of a node, each as the set of the keys of its outputs.\<close>

definition outputKeys :: "quantumGraphTaskNodes \<Rightarrow> dataId set set" where
  "outputKeys n = (\<lambda>q. dataRefKey ` set (quantumOutputs q)) ` set (quanta n)"

definition sameQuanta :: "quantumGraphTaskNodes \<Rightarrow> quantumGraphTaskNodes \<Rightarrow> bool" where
  "sameQuanta n n' \<longleftrightarrow> nodeTaskDef n' = nodeTaskDef n \<and> outputKeys n' = outputKeys n"

lemma groupRefs_cong:
  "set rows' = set rows \<Longrightarrow> groupRefs ds ql rows' k d = groupRefs ds ql rows k d"
  by (simp add: groupRefs_def)

lemma status_sim:
  assumes "addSides ds ql rows [] = Inr tq" and "addSides ds ql rows' [] = Inr tq'"
    and "set rows' = set rows" and "sameStatus rows"
    and "ref \<in> set (refsOf tq k)"
  shows "\<exists>ref'\<in>set (refsOf tq' k). exists_ref ref' = exists_ref ref"
proof -
  from assms(5) set_refsOf [OF addSides_wf [OF assms(1) wfQ_Nil], of k]
  obtain d dk where a: "absQ tq k d dk = Some ref" by (auto simp: ran_def)
  from addSides_val [OF assms(1) a] have k: "dataRefKey ref = dk"
    and g: "ref \<in> groupRefs ds ql rows k d" by (simp_all add: absQ_Nil)
  from a have "dk \<in> dom (absQ tq k d)" by blast
  with addSides_dom [OF assms(1), of k d] addSides_dom [OF assms(2), of k d]
  have "dk \<in> dom (absQ tq' k d)" by (simp add: absQ_Nil groupRefs_cong [OF assms(3)])
  then obtain ref' where a': "absQ tq' k d dk = Some ref'" by blast
  from addSides_val [OF assms(2) a'] have k': "dataRefKey ref' = dk"
    and g': "ref' \<in> groupRefs ds ql rows k d"
    by (simp_all add: absQ_Nil groupRefs_cong [OF assms(3)])
  from g g' obtain r1 r2 where "r1 \<in> set rows" "r2 \<in> set rows"
    "datasetRefs r1 d = Some ref" "datasetRefs r2 d = Some ref'"
    by (auto simp: groupRefs_def)
  note r = this
  from assms(4) have "\<And>r1 r2 d ref1 ref2. r1 \<in> set rows \<Longrightarrow> r2 \<in> set rows \<Longrightarrow>
      datasetRefs r1 d = Some ref1 \<Longrightarrow> datasetRefs r2 d = Some ref2 \<Longrightarrow>
      dataRefKey ref1 = dataRefKey ref2 \<Longrightarrow> exists_ref ref1 = exists_ref ref2"
    unfolding sameStatus_def by blast
  from this [OF r] k k' have "exists_ref ref = exists_ref ref'" by simp
  moreover from a' have "ref' \<in> set (refsOf tq' k)"
    using set_refsOf [OF addSides_wf [OF assms(2) wfQ_Nil], of k] by (auto simp: ran_def)
  ultimately show ?thesis by auto
qed

lemma sameStatus_cong: "set rows' = set rows \<Longrightarrow> sameStatus rows' = sameStatus rows"
  by (simp add: sameStatus_def)

lemma status_eq:
  assumes "addSides ds ql rows [] = Inr tq" and "addSides ds ql rows' [] = Inr tq'"
    and "set rows' = set rows" and "sameStatus rows"
  shows "list_all exists_ref (refsOf tq' k) = list_all exists_ref (refsOf tq k)"
    and "list_ex exists_ref (refsOf tq' k) = list_ex exists_ref (refsOf tq k)"
proof -
  have s': "sameStatus rows'" using sameStatus_cong [OF assms(3)] assms(4) by simp
  have 1: "\<exists>ref'\<in>set (refsOf tq' k). exists_ref ref' = exists_ref ref"
    if "ref \<in> set (refsOf tq k)" for ref
    using status_sim [OF assms(1,2,3,4) that] .
  have 2: "\<exists>ref'\<in>set (refsOf tq k). exists_ref ref' = exists_ref ref"
    if "ref \<in> set (refsOf tq' k)" for ref
    using status_sim [OF assms(2,1) assms(3) [symmetric] s' that] .
  show "list_all exists_ref (refsOf tq' k) = list_all exists_ref (refsOf tq k)"
  proof
    assume a: "list_all exists_ref (refsOf tq' k)"
    have "exists_ref ref" if "ref \<in> set (refsOf tq k)" for ref
    proof -
      from 1 [OF that] obtain ref' where "ref' \<in> set (refsOf tq' k)" "exists_ref ref' = exists_ref ref"
        by blast
      with a show ?thesis by (simp add: list_all_iff)
    qed
    then show "list_all exists_ref (refsOf tq k)" by (simp add: list_all_iff)
  next
    assume a: "list_all exists_ref (refsOf tq k)"
    have "exists_ref ref" if "ref \<in> set (refsOf tq' k)" for ref
    proof -
      from 2 [OF that] obtain ref' where "ref' \<in> set (refsOf tq k)" "exists_ref ref' = exists_ref ref"
        by blast
      with a show ?thesis by (simp add: list_all_iff)
    qed
    then show "list_all exists_ref (refsOf tq' k)" by (simp add: list_all_iff)
  qed
  show "list_ex exists_ref (refsOf tq' k) = list_ex exists_ref (refsOf tq k)"
  proof
    assume "list_ex exists_ref (refsOf tq' k)"
    then obtain ref where r: "ref \<in> set (refsOf tq' k)" "exists_ref ref" by (auto simp: list_ex_iff)
    from 2 [OF r(1)] r(2) show "list_ex exists_ref (refsOf tq k)" by (auto simp: list_ex_iff)
  next
    assume "list_ex exists_ref (refsOf tq k)"
    then obtain ref where r: "ref \<in> set (refsOf tq k)" "exists_ref ref" by (auto simp: list_ex_iff)
    from 1 [OF r(1)] r(2) show "list_ex exists_ref (refsOf tq' k)" by (auto simp: list_ex_iff)
  qed
qed

lemma keys_eq:
  assumes "addSides ds ql rows [] = Inr tq" and "addSides ds ql rows' [] = Inr tq'"
    and "set rows' = set rows"
  shows "dataRefKey ` set (refsOf tq' k) = dataRefKey ` set (refsOf tq k)"
  by (simp add: refsOf_keys [OF assms(1)] refsOf_keys [OF assms(2)] groupRefs_cong [OF assms(3)])

lemma addRows_ok:
  "(\<exists>tq. addRows td ql rows ([], []) = Inr tq) \<longleftrightarrow>
     list_all (rowOk (inputs td) ql) rows \<and> list_all (rowOk (outputs td) ql) rows"
proof
  assume "\<exists>tq. addRows td ql rows ([], []) = Inr tq"
  then obtain tq where "addRows td ql rows ([], []) = Inr tq" by blast
  then have "addSides (inputs td) ql rows [] = Inr (fst tq)" "addSides (outputs td) ql rows [] = Inr (snd tq)"
    using addRows_sides [of td ql rows "([], [])" tq] by simp_all
  then show "list_all (rowOk (inputs td) ql) rows \<and> list_all (rowOk (outputs td) ql) rows"
    using addSides_ok [of "inputs td" ql rows "[]"] addSides_ok [of "outputs td" ql rows "[]"]
    by blast
next
  assume "list_all (rowOk (inputs td) ql) rows \<and> list_all (rowOk (outputs td) ql) rows"
  then obtain a c where "addSides (inputs td) ql rows [] = Inr a" "addSides (outputs td) ql rows [] = Inr c"
    using addSides_ok [of "inputs td" ql rows "[]"] addSides_ok [of "outputs td" ql rows "[]"]
    by blast
  then have "addRows td ql rows ([], []) = Inr (a, c)"
    using addRows_sides [of td ql rows "([], [])" "(a, c)"] by simp
  then show "\<exists>tq. addRows td ql rows ([], []) = Inr tq" by blast
qed

lemma addRows_ok_cong:
  "set rows' = set rows \<Longrightarrow>
     (\<exists>tq. addRows td ql rows' ([], []) = Inr tq) = (\<exists>tq. addRows td ql rows ([], []) = Inr tq)"
  unfolding addRows_ok by (simp add: list_all_iff)


lemma outputKeys_node:
  "outputKeys \<lparr>nodeTaskDef = t,
      quanta = map (mkQuantum tqo) (filter (\<lambda>p. \<not> skipped skip (refsOf tqo (fst p))) tqi)\<rparr> =
   (\<lambda>k. dataRefKey ` set (refsOf tqo k)) ` {k \<in> set (map fst tqi). \<not> skipped skip (refsOf tqo k)}"
proof -
  have "outputKeys \<lparr>nodeTaskDef = t,
      quanta = map (mkQuantum tqo) (filter (\<lambda>p. \<not> skipped skip (refsOf tqo (fst p))) tqi)\<rparr> =
    (\<lambda>p. dataRefKey ` set (refsOf tqo (fst p))) ` {p \<in> set tqi. \<not> skipped skip (refsOf tqo (fst p))}"
    by (simp add: outputKeys_def mkQuantum_def image_image)
  also have "\<dots> = (\<lambda>k. dataRefKey ` set (refsOf tqo k)) `
      (fst ` {p \<in> set tqi. \<not> skipped skip (refsOf tqo (fst p))})"
    by (simp add: image_image)
  also have "fst ` {p \<in> set tqi. \<not> skipped skip (refsOf tqo (fst p))} =
      {k \<in> set (map fst tqi). \<not> skipped skip (refsOf tqo k)}"
    by force
  finally show ?thesis .
qed

lemma find_conflicting_None:
  "find (\<lambda>p. conflicting skip (refsOf tqo (fst p))) tqi = None \<longleftrightarrow>
     (\<forall>k\<in>set (map fst tqi). \<not> conflicting skip (refsOf tqo k))"
  unfolding find_None_iff by force

lemma makeTaskNode_perm:
  assumes "set rows' = set rows" and "sameStatus rows"
  shows "rel_sum (\<lambda>e e'. True) sameQuanta (makeTaskNode b rows td) (makeTaskNode b rows' td)"
proof (cases "quantumLinks (dimensions (registry b)) (quantum_dimensions (config (taskDef td)))")
  case (Inl e)
  then show ?thesis by (simp add: makeTaskNode_def)
next
  case ql: (Inr ql)
  show ?thesis
  proof (cases "addRows td ql rows ([], [])")
    case (Inl e)
    then have "\<not> (\<exists>tq. addRows td ql rows ([], []) = Inr tq)" by simp
    with addRows_ok_cong [OF assms(1), of td ql] obtain e' where "addRows td ql rows' ([], []) = Inl e'"
      by (cases "addRows td ql rows' ([], [])") auto
    with Inl ql show ?thesis by (simp add: makeTaskNode_def)
  next
    case (Inr tq)
    obtain tqi tqo where tq: "addRows td ql rows ([], []) = Inr (tqi, tqo)"
      using Inr by (cases tq) simp
    with addRows_ok_cong [OF assms(1), of td ql] obtain tqi' tqo' where
      tq': "addRows td ql rows' ([], []) = Inr (tqi', tqo')"
      by (cases "addRows td ql rows' ([], [])") auto
    note t = addRows_tables [OF tq] and t' = addRows_tables [OF tq']
    let ?skip = "skipExisting b"
    have keys: "set (map fst tqi') = set (map fst tqi)"
      unfolding t(6) t'(6) by (simp add: assms(1))
    have sk: "skipped ?skip (refsOf tqo' k) = skipped ?skip (refsOf tqo k)" for k
      by (simp add: skipped_def status_eq(1) [OF t(2) t'(2) assms])
    have cf: "conflicting ?skip (refsOf tqo' k) = conflicting ?skip (refsOf tqo k)" for k
      by (simp add: conflicting_def sk status_eq(2) [OF t(2) t'(2) assms])
    have dk: "dataRefKey ` set (refsOf tqo' k) = dataRefKey ` set (refsOf tqo k)" for k
      by (rule keys_eq [OF t(2) t'(2) assms(1)])
    have fn: "find (\<lambda>p. conflicting ?skip (refsOf tqo' (fst p))) tqi' = None \<longleftrightarrow>
        find (\<lambda>p. conflicting ?skip (refsOf tqo (fst p))) tqi = None"
      unfolding find_conflicting_None keys by (simp add: cf)
    note f = makeTaskNode_find [OF ql tq] and f' = makeTaskNode_find [OF ql tq']
    show ?thesis
    proof (cases "find (\<lambda>p. conflicting ?skip (refsOf tqo (fst p))) tqi")
      case None
      with fn have None': "find (\<lambda>p. conflicting ?skip (refsOf tqo' (fst p))) tqi' = None" by simp
      have "outputKeys \<lparr>nodeTaskDef = taskDef td,
          quanta = map (mkQuantum tqo') (filter (\<lambda>p. \<not> skipped ?skip (refsOf tqo' (fst p))) tqi')\<rparr> =
        outputKeys \<lparr>nodeTaskDef = taskDef td,
          quanta = map (mkQuantum tqo) (filter (\<lambda>p. \<not> skipped ?skip (refsOf tqo (fst p))) tqi)\<rparr>"
        unfolding outputKeys_node keys by (simp add: sk dk)
      then show ?thesis unfolding f f' None None' by (simp add: sameQuanta_def)
    next
      case (Some p)
      with fn obtain p' where "find (\<lambda>p. conflicting ?skip (refsOf tqo' (fst p))) tqi' = Some p'"
        by (cases "find (\<lambda>p. conflicting ?skip (refsOf tqo' (fst p))) tqi'") auto
      with Some show ?thesis unfolding f f' by simp
    qed
  qed
qed


lemma makeTaskNode_cong:
  "dimensions (registry b') = dimensions (registry b) \<Longrightarrow> skipExisting b' = skipExisting b \<Longrightarrow>
     makeTaskNode b' rows td = makeTaskNode b rows td"
  by (simp add: makeTaskNode_def cong: sum.case_cong)

lemma rel_sum_cases:
  assumes "rel_sum P Q x y"
  obtains (L) a c where "x = Inl a" "y = Inl c" "P a c"
    | (R) u v where "x = Inr u" "y = Inr v" "Q u v"
  using assms by (cases x; cases y) auto

lemma makeTaskNodes_perm:
  assumes "set rows' = set rows" and "sameStatus rows"
    and "dimensions (registry b') = dimensions (registry b)" and "skipExisting b' = skipExisting b"
  shows "rel_sum (\<lambda>e e'. True) (list_all2 sameQuanta)
     (makeTaskNodes b rows tds) (makeTaskNodes b' rows' tds)"
proof (induction tds)
  case Nil
  show ?case by simp
next
  case (Cons td tds)
  have c: "makeTaskNode b' rows' td = makeTaskNode b rows' td"
    using assms(3,4) by (rule makeTaskNode_cong)
  from makeTaskNode_perm [OF assms(1,2), of b td]
  show ?case
  proof (cases rule: rel_sum_cases)
    case (L e e')
    then show ?thesis by (simp add: c)
  next
    case (R n n')
    from Cons.IH show ?thesis
    proof (cases rule: rel_sum_cases)
      case (L e e')
      with R show ?thesis by (simp add: c)
    next
      case ns: (R ns ns')
      with R show ?thesis by (simp add: c)
    qed
  qed
qed

lemma findFirst_cong:
  "findDataset reg' = findDataset reg \<Longrightarrow> findFirst reg' d cs = findFirst reg d cs"
  by (induction cs) (simp_all split: option.splits)

lemma resolve_cong:
  assumes "findDataset reg' = findDataset reg"
  shows "resolveInitInputs reg' origin ds = resolveInitInputs reg origin ds"
proof (induction ds)
  case Nil
  show ?case by simp
next
  case (Cons d ds)
  have "findFirst reg' d (getInputCollections origin (name d)) =
      findFirst reg d (getInputCollections origin (name d))"
    using assms by (rule findFirst_cong)
  with Cons.IH show ?case by (simp split: prod.splits option.splits)
qed

definition sameGraph :: "quantumGraph \<Rightarrow> quantumGraph \<Rightarrow> bool" where
  "sameGraph g g' \<longleftrightarrow> list_all2 sameQuanta (nodes g) (nodes g')"

lemma pm_perm:
  assumes "parserYacc b' = parserYacc b" and "skipExisting b' = skipExisting b"
    and "findDataset (registry b') = findDataset (registry b)"
    and "dimensions (registry b') = dimensions (registry b)"
    and "\<And>e. rel_sum (=) (\<lambda>rows rows'. mset rows' = mset rows \<and> sameStatus rows)
       (selectDimensions (registry b) origin e ins outs)
       (selectDimensions (registry b') origin e ins outs)"
  shows "rel_sum (\<lambda>e e'. True) sameGraph
     (fst (private_makeGraph b h tds ins outs initIns initOuts origin userQuery))
     (fst (private_makeGraph b' h tds ins outs initIns initOuts origin userQuery))"
proof (cases "parserYacc b (or_empty userQuery)")
  case (Inl exc)
  then show ?thesis by (cases exc) (simp_all add: pm_defs assms(1))
next
  case pq: (Inr pq)
  from assms(5) [of "map_option str_of_tree pq"] show ?thesis
  proof (cases rule: rel_sum_cases)
    case (L e e')
    with pq show ?thesis by (simp add: pm_defs assms(1))
  next
    case Inr: (R rows rows')
    from Inr(3) have "mset rows' = mset rows" and st: "sameStatus rows" by simp_all
    then have s: "set rows' = set rows" by (metis set_mset_mset)
    obtain r ev where r: "resolveInitInputs (registry b) origin (set_iter h initIns) = (r, ev)"
      by (cases "resolveInitInputs (registry b) origin (set_iter h initIns)")
    then have r': "resolveInitInputs (registry b') origin (set_iter h initIns) = (r, ev)"
      by (simp add: resolve_cong [OF assms(3)])
    show ?thesis
    proof (cases r)
      case (Inl e)
      with pq Inr(1,2) r r' show ?thesis by (simp add: pm_defs assms(1))
    next
      case rs: (Inr rs)
      from makeTaskNodes_perm [OF s st assms(4,2), of tds] show ?thesis
      proof (cases rule: rel_sum_cases)
        case (L e e')
        with pq Inr(1,2) r r' rs show ?thesis by (simp add: pm_defs assms(1))
      next
        case ns: (R ns ns')
        with pq Inr(1,2) r r' rs show ?thesis by (simp add: pm_defs assms(1) sameGraph_def)
      qed
    qed
  qed
qed

text \<open>
  Claim C6. Take two builders that differ at most in the order in which the registry
  returns the rows of a query: the same task factory, parser, policy flag, \<open>find\<close>
  and dimensions, and for every query either the same failure or the same rows up to
  their order, the rows agreeing on which datasets exist. For one pipeline, origin and
  user query, either both runs of \<open>makeGraph\<close> fail or both return a graph, and the
  two graphs have, task by task, the same task definition and the same set of quanta,
  a quantum being taken as the set of the keys of its outputs.
\<close>

theorem row_order_independence:
  assumes "taskFactory b' = taskFactory b" and "parserYacc b' = parserYacc b"
    and "skipExisting b' = skipExisting b"
    and "findDataset (registry b') = findDataset (registry b)"
    and "dimensions (registry b') = dimensions (registry b)"
    and "\<forall>origin e ins outs.
       rel_sum (=) (\<lambda>rows rows'. mset rows' = mset rows \<and> sameStatus rows)
         (selectDimensions (registry b) origin e ins outs)
         (selectDimensions (registry b') origin e ins outs)"
  shows "rel_sum (\<lambda>e e'. True) sameGraph
     (fst (makeGraph b h s pipeline origin userQuery)) (fst (makeGraph b' h s pipeline origin userQuery))"
proof (cases "loadAll (taskFactory b) s pipeline")
  case (Inl e)
  then show ?thesis by (simp add: makeGraph_def assms(1))
next
  case (Inr p)
  obtain s' taskList where p: "p = (s', taskList)" by (cases p)
  show ?thesis
  proof (cases "collectAll (map (\<lambda>a. s' ! a) taskList)")
    case (Inl e)
    with Inr p show ?thesis by (simp add: makeGraph_def assms(1))
  next
    case tds: (Inr tds)
    show ?thesis
    proof (cases "makeFullIODatasetTypes tds")
      case (Inl e)
      with Inr p tds show ?thesis by (simp add: makeGraph_def assms(1))
    next
      case io: (Inr io)
      obtain ins outs initIns initOuts where io': "io = (ins, outs, initIns, initOuts)"
        by (cases io)
      have l: "loadAll (taskFactory b) s pipeline = Inr (s', taskList)"
        "loadAll (taskFactory b') s pipeline = Inr (s', taskList)"
        using Inr p by (simp_all add: assms(1))
      have m: "makeFullIODatasetTypes tds = Inr (ins, outs, initIns, initOuts)"
        using io io' by simp
      have sel: "rel_sum (=) (\<lambda>rows rows'. mset rows' = mset rows \<and> sameStatus rows)
         (selectDimensions (registry b) origin e ins outs)
         (selectDimensions (registry b') origin e ins outs)" for e
        using assms(6) by blast
      from pm_perm [OF assms(2,3,4,5) sel, of h tds initIns initOuts userQuery]
      show ?thesis
        unfolding makeGraph_reaches [OF l(1) tds m] makeGraph_reaches [OF l(2) tds m] by simp
    qed
  qed
qed

text \<open>Rows \<open>A\<close> agree on the existence of every dataset they mention.\<close>

lemma ex_sameStatusA: "sameStatus ex_rowsA"
  by (auto simp: sameStatus_def ex_rowsA_def ex_row_def ex_ref_def exists_ref_def dataRefKey_def
      split: if_splits)

text \<open>
  Claim C6 on rows \<open>A\<close> and the same rows in reverse order: both runs return a
  graph, with the same quanta.
\<close>

theorem row_order_independence_witness:
  "taskFactory (ex_builder True (rev ex_rowsA) True) = taskFactory (ex_builder True ex_rowsA True) \<and>
   parserYacc (ex_builder True (rev ex_rowsA) True) = parserYacc (ex_builder True ex_rowsA True) \<and>
   skipExisting (ex_builder True (rev ex_rowsA) True) = skipExisting (ex_builder True ex_rowsA True) \<and>
   findDataset (registry (ex_builder True (rev ex_rowsA) True)) =
     findDataset (registry (ex_builder True ex_rowsA True)) \<and>
   dimensions (registry (ex_builder True (rev ex_rowsA) True)) =
     dimensions (registry (ex_builder True ex_rowsA True)) \<and>
   (\<forall>origin e ins outs.
      rel_sum (=) (\<lambda>rows rows'. mset rows' = mset rows \<and> sameStatus rows)
        (selectDimensions (registry (ex_builder True ex_rowsA True)) origin e ins outs)
        (selectDimensions (registry (ex_builder True (rev ex_rowsA) True)) origin e ins outs)) \<and>
   rev ex_rowsA \<noteq> ex_rowsA \<and>
   fst (makeGraph (ex_builder True ex_rowsA True) ex_hash ex_initStore [0] ex_origin None) = Inr ex_graphA \<and>
   (\<exists>g'. fst (makeGraph (ex_builder True (rev ex_rowsA) True) ex_hash ex_initStore [0] ex_origin None) = Inr g' \<and>
      sameGraph ex_graphA g')"
proof -
  let ?b = "ex_builder True ex_rowsA True" and ?b' = "ex_builder True (rev ex_rowsA) True"
  have 1: "taskFactory ?b' = taskFactory ?b" "parserYacc ?b' = parserYacc ?b"
    "skipExisting ?b' = skipExisting ?b"
    by (simp_all add: ex_builder_sel)
  have 2: "findDataset (registry ?b') = findDataset (registry ?b)"
    "dimensions (registry ?b') = dimensions (registry ?b)"
    by (simp_all add: ex_builder_sel ex_registry_def)
  have 3: "\<forall>origin e ins outs.
      rel_sum (=) (\<lambda>rows rows'. mset rows' = mset rows \<and> sameStatus rows)
        (selectDimensions (registry ?b) origin e ins outs)
        (selectDimensions (registry ?b') origin e ins outs)"
    by (simp add: ex_builder_sel ex_registry_sel ex_sameStatusA)
  have 4: "rev ex_rowsA \<noteq> ex_rowsA" by (simp add: ex_rowsA_def ex_row_def)
  have g: "fst (makeGraph ?b ex_hash ex_initStore [0] ex_origin None) = Inr ex_graphA"
    by (simp add: ex_runA)
  from row_order_independence [OF 1 2 3, of ex_hash ex_initStore "[0]" ex_origin None] g
  have "\<exists>g'. fst (makeGraph ?b' ex_hash ex_initStore [0] ex_origin None) = Inr g' \<and> sameGraph ex_graphA g'"
    by (cases "fst (makeGraph ?b' ex_hash ex_initStore [0] ex_origin None)") simp_all
  with 1 2 3 4 g show ?thesis by blast
qed

text \<open>
  The agreement of the rows is needed. Rows \<open>D\<close> hold two references to the output of
  \<open>v = 1\<close>, \<open>d = 10\<close>, one without and one with an identity, which no catalog state
  provides. The later row overwrites the earlier one in the table, so the quantum is
  skipped in one order and built in the other.
\<close>

definition ex_rowsD :: "dimensionRow list" where
  "ex_rowsD = [ex_row 1 0 10 None, ex_row 1 1 10 (Some 5)]"

lemma order_matters_without_agreement:
  "\<not> sameStatus ex_rowsD \<and>
   makeTaskNode (ex_builder True ex_rowsD True) ex_rowsD ex_initTask =
     Inr \<lparr>nodeTaskDef = ex_initStore ! 0, quanta = []\<rparr> \<and>
   makeTaskNode (ex_builder True ex_rowsD True) (rev ex_rowsD) ex_initTask =
     Inr \<lparr>nodeTaskDef = ex_initStore ! 0,
          quanta = [\<lparr>predictedInputs = [ex_ref ex_raw 1 10 (Some 7)],
                     quantumOutputs = [ex_ref ex_calexp 1 10 None]\<rparr>]\<rparr>"
proof (intro conjI)
  have "ex_row 1 0 10 None \<in> set ex_rowsD" "ex_row 1 1 10 (Some 5) \<in> set ex_rowsD"
    "datasetRefs (ex_row 1 0 10 None) ex_calexp = Some (ex_ref ex_calexp 1 10 None)"
    "datasetRefs (ex_row 1 1 10 (Some 5)) ex_calexp = Some (ex_ref ex_calexp 1 10 (Some 5))"
    "dataRefKey (ex_ref ex_calexp 1 10 None) = dataRefKey (ex_ref ex_calexp 1 10 (Some 5))"
    "exists_ref (ex_ref ex_calexp 1 10 None) \<noteq> exists_ref (ex_ref ex_calexp 1 10 (Some 5))"
    by (simp_all add: ex_rowsD_def ex_row_def ex_ref_def dataRefKey_def exists_ref_def)
  then show "\<not> sameStatus ex_rowsD" unfolding sameStatus_def by blast
  show "makeTaskNode (ex_builder True ex_rowsD True) ex_rowsD ex_initTask =
     Inr \<lparr>nodeTaskDef = ex_initStore ! 0, quanta = []\<rparr>"
    by (simp add: ex_builder_sel ex_registry_sel ex_rowsD_def ex_defs run_defs)
  show "makeTaskNode (ex_builder True ex_rowsD True) (rev ex_rowsD) ex_initTask =
     Inr \<lparr>nodeTaskDef = ex_initStore ! 0,
          quanta = [\<lparr>predictedInputs = [ex_ref ex_raw 1 10 (Some 7)],
                     quantumOutputs = [ex_ref ex_calexp 1 10 None]\<rparr>]\<rparr>"
    by (simp add: ex_builder_sel ex_registry_sel ex_rowsD_def ex_defs run_defs)
qed

end
